theory Spec2Isabelle
  imports Main "HOL-Library.Word"
begin

section \<open>Machine types\<close>

text \<open>
  The buffer of \<^verbatim>\<open>thread_safe_ring_buffer.h\<close> is embedded for an LP64 target, the
  platform the driver is built for: \<^verbatim>\<open>size_t\<close> has 64 bits, \<^verbatim>\<open>int\<close> and
  \<^verbatim>\<open>uint32_t\<close> have 32, a byte has 8. All arithmetic on them is word arithmetic and
  wraps around.
\<close>

type_synonym size_t = "64 word"
type_synonym uint32_t = "32 word"
type_synonym c_int = "32 word"
type_synonym byte = "8 word"
type_synonym bytes = "byte list"

definition SIZE_MAX :: size_t where
  "SIZE_MAX = 18446744073709551615"

definition UINT16_MAX :: uint32_t where
  "UINT16_MAX = 65535"

text \<open>\<^verbatim>\<open>static constexpr uint32_t MAX_ALLOWED_READ_DROPS = UINT16_MAX * 6;\<close>\<close>

definition MAX_ALLOWED_READ_DROPS :: uint32_t where
  "MAX_ALLOWED_READ_DROPS = UINT16_MAX * 6"

text \<open>
  \<^verbatim>\<open>std::vector<uint8_t>::max_size()\<close>: the largest length the storage vector accepts,
  \<^verbatim>\<open>PTRDIFF_MAX\<close> for one-byte elements. A longer request makes the vector's
  constructor throw \<^verbatim>\<open>std::length_error\<close>. Running out of memory below that bound
  (\<^verbatim>\<open>std::bad_alloc\<close>) depends on the machine and is not part of the model.
\<close>

definition vector_max_size :: nat where
  "vector_max_size = 9223372036854775807"

section \<open>Outcomes of a call\<close>

text \<open>
  A call of the C++ code either returns, or never returns because it waits on a condition
  variable that no other thread will signal (the model is sequential: one call runs at a
  time), or leaves defined behaviour. The last case is kept as a value, so that no theorem
  silently relies on HOL's total division or list indexing:
  \<^item> \<open>LengthError\<close>: the storage vector refuses its length;
  \<^item> \<open>DivisionByZero\<close>: \<^verbatim>\<open>% capacity()\<close> with capacity 0;
  \<^item> \<open>OutOfRange\<close>: \<^verbatim>\<open>buffer[k]\<close> with \<open>k\<close> not below the vector's size, or a slot
    that extends past the vector's end.
\<close>

datatype failure = LengthError | DivisionByZero | OutOfRange

datatype 'a outcome = Fails failure | Blocks | Returns 'a

section \<open>The ring buffer\<close>

text \<open>
  The data members of \<^verbatim>\<open>class ThreadSafeRingBuffer\<close>. The mutex, the two condition
  variables and the two locks carry no data; their only sequential effect, a wait that
  cannot end, is the outcome \<open>Blocks\<close>.
\<close>

record ring_buffer =
  buffer :: bytes
  item_size :: size_t
  max_items_count :: size_t
  active_items_count :: size_t
  write_idx :: size_t
  read_idx :: size_t
  dropped_reads :: uint32_t
  should_always_drop_reads :: bool

text \<open>The member initialiser list of the constructor.\<close>

definition initial_buffer :: "size_t \<Rightarrow> size_t \<Rightarrow> ring_buffer" where
  "initial_buffer item_size' items_count' =
     \<lparr> buffer = replicate (unat (item_size' * items_count')) 0,
       item_size = item_size',
       max_items_count = items_count',
       active_items_count = 0,
       write_idx = SIZE_MAX,
       read_idx = SIZE_MAX,
       dropped_reads = 0,
       should_always_drop_reads = True \<rparr>"

text \<open>
  The constructor. The product \<^verbatim>\<open>item_size_ * items_count_\<close> is computed in
  \<^verbatim>\<open>size_t\<close>; the only failure is the vector's own length check. The constructor has no
  check of its arguments.
\<close>

definition ThreadSafeRingBuffer :: "size_t \<Rightarrow> size_t \<Rightarrow> ring_buffer outcome" where
  "ThreadSafeRingBuffer item_size' items_count' =
     (if vector_max_size < unat (item_size' * items_count') then Fails LengthError
      else Returns (initial_buffer item_size' items_count'))"

definition capacity :: "ring_buffer \<Rightarrow> size_t" where
  "capacity b = max_items_count b"

definition size_rb :: "ring_buffer \<Rightarrow> size_t" where
  "size_rb b = active_items_count b"

definition empty_rb :: "ring_buffer \<Rightarrow> bool" where
  "empty_rb b = (active_items_count b = 0)"

definition full_rb :: "ring_buffer \<Rightarrow> bool" where
  "full_rb b = (active_items_count b = capacity b)"

definition reset_write_idx :: "ring_buffer \<Rightarrow> ring_buffer" where
  "reset_write_idx b = b\<lparr>write_idx := SIZE_MAX\<rparr>"

definition reset_read_idx :: "ring_buffer \<Rightarrow> ring_buffer" where
  "reset_read_idx b = b\<lparr>read_idx := SIZE_MAX\<rparr>"

definition get_max_allowed_read_drops :: uint32_t where
  "get_max_allowed_read_drops = MAX_ALLOWED_READ_DROPS"

subsection \<open>Cursor arithmetic\<close>

text \<open>
  \<^verbatim>\<open>increment_with_capacity\<close> takes a reference to one of the two atomic cursors. The
  reference is modelled by naming the cursor; \<open>load\<close> and \<open>store\<close> are the atomic's
  read and assignment.
\<close>

datatype cursor = Write_idx | Read_idx

fun load :: "cursor \<Rightarrow> ring_buffer \<Rightarrow> size_t" where
  "load Write_idx b = write_idx b"
| "load Read_idx b = read_idx b"

fun store :: "cursor \<Rightarrow> size_t \<Rightarrow> ring_buffer \<Rightarrow> ring_buffer" where
  "store Write_idx v b = b\<lparr>write_idx := v\<rparr>"
| "store Read_idx v b = b\<lparr>read_idx := v\<rparr>"

definition increment_with_capacity ::
  "cursor \<Rightarrow> ring_buffer \<Rightarrow> (size_t \<times> ring_buffer) outcome" where
  "increment_with_capacity idx b =
     (if capacity b = 0 then Fails DivisionByZero
      else (let incremented = (load idx b + 1) mod capacity b
            in Returns (incremented, store idx incremented b)))"

definition incremented_with_capacity :: "ring_buffer \<Rightarrow> size_t \<Rightarrow> size_t outcome" where
  "incremented_with_capacity b idx =
     (if capacity b = 0 then Fails DivisionByZero
      else Returns ((idx + 1) mod capacity b))"

subsection \<open>The occupancy counter\<close>

text \<open>\<^verbatim>\<open>active_items_count = std::min(active_items_count.load() + 1, capacity());\<close>\<close>

definition push :: "ring_buffer \<Rightarrow> ring_buffer" where
  "push b = b\<lparr>active_items_count := min (active_items_count b + 1) (capacity b)\<rparr>"

text \<open>
  \<^verbatim>\<open>active_items_count = static_cast<size_t>(std::max(
        static_cast<int>(active_items_count.load() - 1), 0));\<close>
  The subtraction is done in \<^verbatim>\<open>size_t\<close>; the cast to \<^verbatim>\<open>int\<close> keeps the low 32 bits
  and reads them as two's complement; the maximum is taken on \<^verbatim>\<open>int\<close>; the cast back
  to \<^verbatim>\<open>size_t\<close> is of a value that is not negative.
\<close>

definition static_cast_int :: "size_t \<Rightarrow> int" where
  "static_cast_int x = sint (ucast x :: c_int)"

definition pop :: "ring_buffer \<Rightarrow> ring_buffer" where
  "pop b = b\<lparr>active_items_count :=
               word_of_int (max (static_cast_int (active_items_count b - 1)) 0)\<rparr>"

subsection \<open>Callbacks on a slot\<close>

text \<open>
  A caller-supplied callback is a C++ closure that receives \<^verbatim>\<open>uint8_t*\<close>, the address
  of the slot's first byte. It may change what it has captured (the tests' callbacks
  fill a \<^verbatim>\<open>target\<close> vector and advance an index) and it may read and write the slot.
  It is modelled as a function of the caller's state \<open>'c\<close> and the slot's \<open>item_size\<close>
  bytes that gives the caller's new state and the bytes it leaves in the slot. That a
  callback was not invoked shows as an unchanged caller state, whatever the callback.

  The callback is trusted to stay inside the slot: of the bytes it returns, those beyond
  the slot's length are dropped, and a shorter result leaves the rest of the slot as it
  was (\<open>overlay\<close>).
\<close>

type_synonym 'c callback = "'c \<Rightarrow> bytes \<Rightarrow> 'c \<times> bytes"

definition overlay :: "bytes \<Rightarrow> bytes \<Rightarrow> bytes" where
  "overlay old new = take (length old) new @ drop (length new) old"

text \<open>
  \<^verbatim>\<open>&buffer[k]\<close> followed by the callback's access to \<open>item_size\<close> bytes from there.
  \<^verbatim>\<open>operator[]\<close> does no bounds check; an index outside the vector is undefined
  behaviour and is made the failure \<open>OutOfRange\<close>.
\<close>

definition slot_at :: "ring_buffer \<Rightarrow> size_t \<Rightarrow> bytes outcome" where
  "slot_at b k =
     (if unat k < length (buffer b) \<and> unat k + unat (item_size b) \<le> length (buffer b)
      then Returns (take (unat (item_size b)) (drop (unat k) (buffer b)))
      else Fails OutOfRange)"

definition invoke :: "'c callback \<Rightarrow> size_t \<Rightarrow> 'c \<times> ring_buffer \<Rightarrow> ('c \<times> ring_buffer) outcome" where
  "invoke cb k s =
     (case s of (c, b) \<Rightarrow>
        (case slot_at b k of
           Fails e \<Rightarrow> Fails e
         | Blocks \<Rightarrow> Blocks
         | Returns old \<Rightarrow>
             (case cb c old of (c', new) \<Rightarrow>
                Returns (c', b\<lparr>buffer := take (unat k) (buffer b) @ overlay old new
                                         @ drop (unat k + unat (item_size b)) (buffer b)\<rparr>))))"

subsection \<open>The shared write and read primitives\<close>

text \<open>
  \<^verbatim>\<open>buffer_write(&buffer[increment_with_capacity(write_idx) * item_size]); push();\<close>
  The notification of the condition variable has no sequential effect.
\<close>

definition perform_write :: "'c callback \<Rightarrow> 'c \<times> ring_buffer \<Rightarrow> ('c \<times> ring_buffer) outcome" where
  "perform_write buffer_write s =
     (case s of (c, b) \<Rightarrow>
        (case increment_with_capacity Write_idx b of
           Fails e \<Rightarrow> Fails e
         | Blocks \<Rightarrow> Blocks
         | Returns (i, b1) \<Rightarrow>
             (case invoke buffer_write (i * item_size b1) (c, b1) of
                Fails e \<Rightarrow> Fails e
              | Blocks \<Rightarrow> Blocks
              | Returns (c', b2) \<Rightarrow> Returns (c', push b2))))"

text \<open>
  The collision test of \<^verbatim>\<open>perform_read\<close>, then either the early return that counts a
  dropped read, or the read itself.
\<close>

definition perform_read :: "'c callback \<Rightarrow> 'c \<times> ring_buffer \<Rightarrow> ('c \<times> ring_buffer) outcome" where
  "perform_read buffer_read s =
     (case s of (c, b) \<Rightarrow>
        (case incremented_with_capacity b (read_idx b) of
           Fails e \<Rightarrow> Fails e
         | Blocks \<Rightarrow> Blocks
         | Returns next_idx \<Rightarrow>
             if next_idx = write_idx b
                \<and> (should_always_drop_reads b \<or> dropped_reads b < MAX_ALLOWED_READ_DROPS)
             then Returns (c, b\<lparr>dropped_reads := dropped_reads b + 1\<rparr>)
             else
               (case increment_with_capacity Read_idx (b\<lparr>dropped_reads := 0\<rparr>) of
                  Fails e \<Rightarrow> Fails e
                | Blocks \<Rightarrow> Blocks
                | Returns (i, b1) \<Rightarrow>
                    (case invoke buffer_read (i * item_size b1) (c, b1) of
                       Fails e \<Rightarrow> Fails e
                     | Blocks \<Rightarrow> Blocks
                     | Returns (c', b2) \<Rightarrow> Returns (c', pop b2)))))"

subsection \<open>The public write and read calls\<close>

text \<open>
  \<^verbatim>\<open>write\<close> waits until \<^verbatim>\<open>!full()\<close>. With no other call running, a full buffer
  stays full and the wait never ends.
\<close>

definition write_rb :: "'c callback \<Rightarrow> 'c \<times> ring_buffer \<Rightarrow> ('c \<times> ring_buffer) outcome" where
  "write_rb buffer_write s =
     (case s of (c, b) \<Rightarrow>
        (let b0 = b\<lparr>should_always_drop_reads := False\<rparr>
         in if full_rb b0 then Blocks else perform_write buffer_write (c, b0)))"

definition write_overwrite :: "'c callback \<Rightarrow> 'c \<times> ring_buffer \<Rightarrow> ('c \<times> ring_buffer) outcome" where
  "write_overwrite buffer_write s =
     (case s of (c, b) \<Rightarrow>
        perform_write buffer_write (c, b\<lparr>should_always_drop_reads := True\<rparr>))"

definition write_nonblock :: "'c callback \<Rightarrow> 'c \<times> ring_buffer \<Rightarrow> ('c \<times> ring_buffer) outcome" where
  "write_nonblock buffer_write s =
     (case s of (c, b) \<Rightarrow>
        (let b0 = b\<lparr>should_always_drop_reads := False\<rparr>
         in if \<not> full_rb b0 then perform_write buffer_write (c, b0) else Returns (c, b0)))"

text \<open>\<^verbatim>\<open>read\<close> waits until \<^verbatim>\<open>!empty()\<close>; an empty buffer stays empty.\<close>

definition read_rb :: "'c callback \<Rightarrow> 'c \<times> ring_buffer \<Rightarrow> ('c \<times> ring_buffer) outcome" where
  "read_rb buffer_read s =
     (case s of (c, b) \<Rightarrow>
        if empty_rb b then Blocks else perform_read buffer_read (c, b))"

text \<open>
  \<^verbatim>\<open>read_timeout\<close>: \<^verbatim>\<open>wait_for\<close> gives true at once when the buffer is not empty;
  on an empty buffer the deadline passes and the call returns without a read. The length
  of the timeout plays no part in the result.
\<close>

definition read_timeout :: "'c callback \<Rightarrow> 'c \<times> ring_buffer \<Rightarrow> ('c \<times> ring_buffer) outcome" where
  "read_timeout buffer_read s =
     (case s of (c, b) \<Rightarrow>
        if \<not> empty_rb b then perform_read buffer_read (c, b) else Returns (c, b))"

definition read_nonblock :: "'c callback \<Rightarrow> 'c \<times> ring_buffer \<Rightarrow> ('c \<times> ring_buffer) outcome" where
  "read_nonblock buffer_read s =
     (case s of (c, b) \<Rightarrow>
        if \<not> empty_rb b then perform_read buffer_read (c, b) else Returns (c, b))"

section \<open>Sequential runs\<close>

text \<open>
  One call of the class's interface. The two cursor resets are protected members that the
  test fixture reaches as a friend (\<^verbatim>\<open>reset_writing()\<close>).
\<close>

datatype 'c operation =
    Write "'c callback"
  | Write_overwrite "'c callback"
  | Write_nonblock "'c callback"
  | Read "'c callback"
  | Read_timeout "'c callback"
  | Read_nonblock "'c callback"
  | Reset_write_idx
  | Reset_read_idx

fun exec :: "'c operation \<Rightarrow> 'c \<times> ring_buffer \<Rightarrow> ('c \<times> ring_buffer) outcome" where
  "exec (Write cb) s = write_rb cb s"
| "exec (Write_overwrite cb) s = write_overwrite cb s"
| "exec (Write_nonblock cb) s = write_nonblock cb s"
| "exec (Read cb) s = read_rb cb s"
| "exec (Read_timeout cb) s = read_timeout cb s"
| "exec (Read_nonblock cb) s = read_nonblock cb s"
| "exec Reset_write_idx s = Returns (fst s, reset_write_idx (snd s))"
| "exec Reset_read_idx s = Returns (fst s, reset_read_idx (snd s))"

text \<open>
  Calls made one after the other by a single thread. A call that blocks or fails ends
  the run with that outcome.
\<close>

fun run :: "'c operation list \<Rightarrow> 'c \<times> ring_buffer \<Rightarrow> ('c \<times> ring_buffer) outcome" where
  "run [] s = Returns s"
| "run (x # xs) s =
     (case exec x s of
        Fails e \<Rightarrow> Fails e
      | Blocks \<Rightarrow> Blocks
      | Returns s' \<Rightarrow> run xs s')"


subsection \<open>The callbacks of the test fixture\<close>

text \<open>
  The producers of \<^verbatim>\<open>ring_buffer_test.cpp\<close> call
  \<^verbatim>\<open>std::memcpy(buffer, &source[i][0], ITEM_SIZE)\<close>: the slot receives the item. The
  consumers call \<^verbatim>\<open>std::memcpy(&target[i++][0], buffer, ITEM_SIZE)\<close>: the slot's
  bytes become the next entry of \<^verbatim>\<open>target\<close>, which is the caller's state here.
\<close>

definition memcpy_in :: "bytes \<Rightarrow> 'c callback" where
  "memcpy_in item c slot = (c, item)"

definition memcpy_out :: "(bytes list) callback" where
  "memcpy_out target slot = (target @ [slot], slot)"

text \<open>
  A callback wrapped so that it also counts its invocations: the first counter is for
  writer callbacks, the second for reader callbacks.
\<close>

definition counting_writer :: "'c callback \<Rightarrow> ((nat \<times> nat) \<times> 'c) callback" where
  "counting_writer cb s slot =
     (case s of ((w, r), c) \<Rightarrow> (case cb c slot of (c', new) \<Rightarrow> (((w + 1, r), c'), new)))"

definition counting_reader :: "'c callback \<Rightarrow> ((nat \<times> nat) \<times> 'c) callback" where
  "counting_reader cb s slot =
     (case s of ((w, r), c) \<Rightarrow> (case cb c slot of (c', new) \<Rightarrow> (((w, r + 1), c'), new)))"

fun counted :: "'c operation \<Rightarrow> ((nat \<times> nat) \<times> 'c) operation" where
  "counted (Write cb) = Write (counting_writer cb)"
| "counted (Write_overwrite cb) = Write_overwrite (counting_writer cb)"
| "counted (Write_nonblock cb) = Write_nonblock (counting_writer cb)"
| "counted (Read cb) = Read (counting_reader cb)"
| "counted (Read_timeout cb) = Read_timeout (counting_reader cb)"
| "counted (Read_nonblock cb) = Read_nonblock (counting_reader cb)"
| "counted Reset_write_idx = Reset_write_idx"
| "counted Reset_read_idx = Reset_read_idx"

section \<open>Well-formed buffers\<close>

text \<open>
  The class invariant that the constructor establishes for sizes that are at least 1 and
  whose product fits the storage vector: the storage has exactly
  \<open>capacity * item_size\<close> bytes. The fields \<open>item_size\<close> and \<open>max_items_count\<close> are
  \<^verbatim>\<open>const\<close>, and no call changes the length of the storage.
\<close>

definition well_formed :: "ring_buffer \<Rightarrow> bool" where
  "well_formed b =
     (max_items_count b \<noteq> 0 \<and> item_size b \<noteq> 0
      \<and> unat (item_size b) * unat (max_items_count b) \<le> vector_max_size
      \<and> length (buffer b) = unat (item_size b) * unat (max_items_count b))"

text \<open>
  Slot \<open>i\<close> of the storage, and the storage after a callback has left \<open>new\<close> in
  slot \<open>i\<close>, with offsets as natural numbers. They are used to state what a call does
  to a well-formed buffer.
\<close>

definition slot_bytes :: "ring_buffer \<Rightarrow> nat \<Rightarrow> bytes" where
  "slot_bytes b i = take (unat (item_size b)) (drop (i * unat (item_size b)) (buffer b))"

definition slot_update :: "ring_buffer \<Rightarrow> nat \<Rightarrow> bytes \<Rightarrow> ring_buffer" where
  "slot_update b i new =
     b\<lparr>buffer := take (i * unat (item_size b)) (buffer b)
                  @ overlay (slot_bytes b i) new
                  @ drop (i * unat (item_size b) + unat (item_size b)) (buffer b)\<rparr>"

section \<open>Producer and consumer\<close>








section \<open>Basic facts\<close>

lemma SIZE_MAX_minus_one: "SIZE_MAX = - 1"
  by (simp add: SIZE_MAX_def)

lemma MAX_ALLOWED_READ_DROPS_value: "MAX_ALLOWED_READ_DROPS = 393210"
  by (simp add: MAX_ALLOWED_READ_DROPS_def UINT16_MAX_def)

lemma load_store: "load idx (store idx v b) = v"
  by (cases idx) simp_all

lemma unat_incremented:
  "unat (((c::size_t) + 1) mod m) = ((unat c + 1) mod 2 ^ 64) mod unat m"
  by (simp add: unat_mod unat_word_ariths)

lemma incremented_less:
  fixes c m :: size_t
  assumes "m \<noteq> 0"
  shows "(c + 1) mod m < m"
proof -
  have "0 < unat m" using assms by (simp add: unat_gt_0)
  then have "unat ((c + 1) mod m) < unat m" by (simp add: unat_mod)
  then show ?thesis by (simp add: word_less_nat_alt)
qed

lemma overlay_length [simp]: "length (overlay old new) = length old"
  by (simp add: overlay_def)

lemma overlay_same_length [simp]: "length new = length old \<Longrightarrow> overlay old new = new"
  by (simp add: overlay_def)

subsection \<open>Slots of a well-formed buffer\<close>

lemma slot_offset:
  assumes wf: "well_formed b" and i: "i < capacity b"
  shows "unat (i * item_size b) = unat i * unat (item_size b)"
    and "unat i * unat (item_size b) < length (buffer b)"
    and "unat i * unat (item_size b) + unat (item_size b) \<le> length (buffer b)"
proof -
  let ?n = "unat (item_size b)" and ?m = "unat (max_items_count b)"
  have lt: "unat i < ?m" using i by (simp add: capacity_def word_less_nat_alt)
  have n: "0 < ?n" using wf by (simp add: well_formed_def unat_gt_0)
  have len: "length (buffer b) = ?n * ?m" and fit: "?n * ?m \<le> vector_max_size"
    using wf by (simp_all add: well_formed_def)
  have "Suc (unat i) \<le> ?m" using lt by simp
  then have "Suc (unat i) * ?n \<le> ?m * ?n" by (rule mult_le_mono1)
  then have le: "unat i * ?n + ?n \<le> ?n * ?m" by (simp add: mult.commute)
  then show "unat i * ?n + ?n \<le> length (buffer b)" by (simp add: len)
  from le n show "unat i * ?n < length (buffer b)" unfolding len by linarith
  have "unat i * ?n < 2 ^ 64" using le fit n by (simp add: vector_max_size_def)
  then show "unat (i * item_size b) = unat i * ?n"
    by (simp add: unat_mult_lem [THEN iffD1])
qed

lemma slot_at_well_formed:
  assumes "well_formed b" and "i < capacity b"
  shows "slot_at b (i * item_size b) = Returns (slot_bytes b (unat i))"
  using slot_offset [OF assms] by (simp add: slot_at_def slot_bytes_def)

lemma invoke_well_formed:
  assumes "well_formed b" and "i < capacity b"
  shows "invoke cb (i * item_size b) (c, b)
           = Returns (fst (cb c (slot_bytes b (unat i))),
                      slot_update b (unat i) (snd (cb c (slot_bytes b (unat i)))))"
  using slot_offset [OF assms] slot_at_well_formed [OF assms]
  by (simp add: invoke_def slot_update_def split: prod.splits)

lemma slot_bytes_length:
  assumes "well_formed b" and "i < unat (capacity b)"
  shows "length (slot_bytes b i) = unat (item_size b)"
proof -
  let ?n = "unat (item_size b)" and ?m = "unat (max_items_count b)"
  have "Suc i \<le> ?m" using assms by (simp add: capacity_def)
  then have "Suc i * ?n \<le> ?m * ?n" by (rule mult_le_mono1)
  then have "i * ?n + ?n \<le> length (buffer b)"
    using assms(1) by (simp add: well_formed_def mult.commute)
  then show ?thesis by (simp add: slot_bytes_def)
qed

lemma slot_update_length:
  assumes "well_formed b" and "i < unat (capacity b)"
  shows "length (buffer (slot_update b i new)) = length (buffer b)"
proof -
  let ?n = "unat (item_size b)" and ?m = "unat (max_items_count b)"
  have "Suc i \<le> ?m" using assms by (simp add: capacity_def)
  then have "Suc i * ?n \<le> ?m * ?n" by (rule mult_le_mono1)
  then have le: "i * ?n + ?n \<le> length (buffer b)"
    using assms(1) by (simp add: well_formed_def mult.commute)
  then show ?thesis
    using slot_bytes_length [OF assms] by (simp add: slot_update_def)
qed

lemma slot_update_fields [simp]:
  "item_size (slot_update b i new) = item_size b"
  "max_items_count (slot_update b i new) = max_items_count b"
  "active_items_count (slot_update b i new) = active_items_count b"
  "write_idx (slot_update b i new) = write_idx b"
  "read_idx (slot_update b i new) = read_idx b"
  "dropped_reads (slot_update b i new) = dropped_reads b"
  "should_always_drop_reads (slot_update b i new) = should_always_drop_reads b"
  "capacity (slot_update b i new) = capacity b"
  by (simp_all add: slot_update_def capacity_def)

lemma well_formed_slot_update:
  assumes "well_formed b" and "i < unat (capacity b)"
  shows "well_formed (slot_update b i new)"
  using assms slot_update_length [OF assms] by (simp add: well_formed_def)

subsection \<open>The two primitives on a well-formed buffer\<close>

lemma perform_write_well_formed:
  assumes wf: "well_formed b"
  shows "perform_write cb (c, b) =
           (let j = (write_idx b + 1) mod capacity b;
                r = cb c (slot_bytes b (unat j))
            in Returns (fst r, push (slot_update (b\<lparr>write_idx := j\<rparr>) (unat j) (snd r))))"
proof -
  let ?j = "(write_idx b + 1) mod capacity b"
  let ?b1 = "b\<lparr>write_idx := ?j\<rparr>"
  have cap: "capacity b \<noteq> 0" using wf by (simp add: well_formed_def capacity_def)
  have wf1: "well_formed ?b1" using wf by (simp add: well_formed_def)
  have lt: "?j < capacity ?b1" using incremented_less [OF cap] by (simp add: capacity_def)
  have inc: "increment_with_capacity Write_idx b = Returns (?j, ?b1)"
    using cap by (simp add: increment_with_capacity_def Let_def)
  have sb: "slot_bytes ?b1 (unat ?j) = slot_bytes b (unat ?j)"
    by (simp add: slot_bytes_def)
  show ?thesis
    using invoke_well_formed [OF wf1 lt, of cb c]
    by (simp add: perform_write_def inc sb Let_def)
qed

lemma perform_read_completes:
  assumes wf: "well_formed b"
    and go: "\<not> ((read_idx b + 1) mod capacity b = write_idx b
               \<and> (should_always_drop_reads b \<or> dropped_reads b < MAX_ALLOWED_READ_DROPS))"
  shows "perform_read cb (c, b) =
           (let j = (read_idx b + 1) mod capacity b;
                r = cb c (slot_bytes b (unat j))
            in Returns (fst r, pop (slot_update (b\<lparr>read_idx := j, dropped_reads := 0\<rparr>)
                                       (unat j) (snd r))))"
proof -
  let ?j = "(read_idx b + 1) mod capacity b"
  let ?b0 = "b\<lparr>dropped_reads := 0\<rparr>"
  let ?b1 = "b\<lparr>read_idx := ?j, dropped_reads := 0\<rparr>"
  have cap: "capacity b \<noteq> 0" using wf by (simp add: well_formed_def capacity_def)
  have wf1: "well_formed ?b1" using wf by (simp add: well_formed_def)
  have lt: "?j < capacity ?b1" using incremented_less [OF cap] by (simp add: capacity_def)
  have peek: "incremented_with_capacity b (read_idx b) = Returns ?j"
    using cap by (simp add: incremented_with_capacity_def)
  have inc: "increment_with_capacity Read_idx ?b0 = Returns (?j, ?b1)"
    using cap by (simp add: increment_with_capacity_def capacity_def Let_def)
  have sb: "slot_bytes ?b1 (unat ?j) = slot_bytes b (unat ?j)"
    by (simp add: slot_bytes_def)
  have isz: "item_size ?b1 = item_size b" by simp
  show ?thesis
    using go invoke_well_formed [OF wf1 lt, of cb c]
    by (auto simp add: perform_read_def peek inc sb Let_def)
qed

lemma perform_read_suppressed:
  assumes "incremented_with_capacity b (read_idx b) = Returns (write_idx b)"
    and "should_always_drop_reads b \<or> dropped_reads b < MAX_ALLOWED_READ_DROPS"
  shows "perform_read cb (c, b) = Returns (c, b\<lparr>dropped_reads := dropped_reads b + 1\<rparr>)"
  using assms by (auto simp add: perform_read_def)

lemma full_rb_flag [simp]:
  "full_rb (b\<lparr>should_always_drop_reads := v\<rparr>) = full_rb b"
  by (simp add: full_rb_def capacity_def)

subsection \<open>What \<open>pop\<close> and \<open>push\<close> compute\<close>

lemma static_cast_int_eq: "static_cast_int x = signed_take_bit 31 (uint x)"
  by (simp add: static_cast_int_def signed_ucast_eq)

lemma static_cast_int_le: "static_cast_int x \<le> uint x"
proof -
  have "(- (2 ^ 31) :: int) \<le> 0" by simp
  then have "- (2 ^ 31) \<le> uint x" using uint_ge_0 [of x] by (rule order_trans)
  then show ?thesis
    by (simp only: static_cast_int_eq signed_take_bit_int_less_eq_self_iff)
qed

lemma static_cast_int_small:
  assumes "unat x < 2 ^ 31"
  shows "static_cast_int x = uint x"
proof -
  have "int (unat x) < int (2 ^ 31)" using assms by (simp only: of_nat_less_iff)
  then have "uint x < 2 ^ 31" by (simp only: uint_nat of_nat_power of_nat_numeral)
  moreover have "(- (2 ^ 31) :: int) \<le> 0" by simp
  then have "- (2 ^ 31) \<le> uint x" using uint_ge_0 [of x] by (rule order_trans)
  ultimately show ?thesis
    by (simp only: static_cast_int_eq signed_take_bit_int_eq_self)
qed

lemma static_cast_int_minus_one: "static_cast_int (- 1) = - 1"
proof -
  have "(ucast (- 1 :: size_t) :: c_int) = - 1"
    by (rule bit_word_eqI) (simp add: bit_simps)
  then show ?thesis by (simp add: static_cast_int_def)
qed

lemma pop_zero:
  assumes "active_items_count b = 0"
  shows "active_items_count (pop b) = 0"
  using assms by (simp add: pop_def static_cast_int_minus_one)

lemma pop_exact:
  assumes "active_items_count b \<noteq> 0" and "unat (active_items_count b) \<le> 2 ^ 31"
  shows "active_items_count (pop b) = active_items_count b - 1"
proof -
  let ?x = "active_items_count b"
  have "unat (?x - 1) = unat ?x - 1" using assms(1) by (simp add: unat_minus_one)
  moreover have "0 < unat ?x" using assms(1) by (simp add: unat_gt_0)
  ultimately have "unat (?x - 1) < 2 ^ 31" using assms(2) by simp
  then have "static_cast_int (?x - 1) = uint (?x - 1)" by (rule static_cast_int_small)
  then show ?thesis by (simp add: pop_def)
qed

lemma pop_le: "active_items_count (pop b) \<le> active_items_count b"
proof (cases "active_items_count b = 0")
  case True
  then show ?thesis by (simp add: pop_zero)
next
  case False
  let ?x = "active_items_count b"
  let ?s = "max (static_cast_int (?x - 1)) 0"
  have lo: "0 \<le> ?s" by simp
  have hi: "?s \<le> uint (?x - 1)" using static_cast_int_le [of "?x - 1"] by simp
  have "uint (?x - 1) < 2 ^ 64" using uint_bounded [of "?x - 1"] by simp
  then have "uint (word_of_int ?s :: size_t) = ?s"
    using lo hi by (simp add: uint_word_of_int_eq take_bit_int_eq_self)
  then have "uint (active_items_count (pop b)) \<le> uint (?x - 1)"
    using hi by (simp add: pop_def)
  then have "active_items_count (pop b) \<le> ?x - 1" by (simp add: word_le_def)
  moreover have "?x - 1 \<le> ?x" using False by (simp add: word_le_nat_alt unat_minus_one)
  ultimately show ?thesis by simp
qed

lemma pop_fields [simp]:
  "buffer (pop b) = buffer b"
  "item_size (pop b) = item_size b"
  "max_items_count (pop b) = max_items_count b"
  "write_idx (pop b) = write_idx b"
  "read_idx (pop b) = read_idx b"
  "dropped_reads (pop b) = dropped_reads b"
  "should_always_drop_reads (pop b) = should_always_drop_reads b"
  "capacity (pop b) = capacity b"
  by (simp_all add: pop_def capacity_def)

lemma push_fields [simp]:
  "buffer (push b) = buffer b"
  "item_size (push b) = item_size b"
  "max_items_count (push b) = max_items_count b"
  "write_idx (push b) = write_idx b"
  "read_idx (push b) = read_idx b"
  "dropped_reads (push b) = dropped_reads b"
  "should_always_drop_reads (push b) = should_always_drop_reads b"
  "capacity (push b) = capacity b"
  by (simp_all add: push_def capacity_def)

lemma push_le: "active_items_count (push b) \<le> capacity b"
  by (simp add: push_def)


lemma push_saturates:
  assumes "active_items_count b = capacity b" and "capacity b \<noteq> SIZE_MAX"
  shows "active_items_count (push b) = capacity b"
proof -
  have "\<not> (capacity b + 1 \<le> capacity b)"
    using assms(2) by (simp add: SIZE_MAX_minus_one inc_less_eq_self_iff_eq)
  then show ?thesis using assms(1) by (simp add: push_def min_def)
qed

subsection \<open>Evaluation of concrete calls\<close>

lemmas call_defs =
  write_rb_def write_overwrite_def write_nonblock_def read_rb_def read_timeout_def
  read_nonblock_def perform_write_def perform_read_def increment_with_capacity_def
  incremented_with_capacity_def invoke_def slot_at_def overlay_def push_def pop_def
  static_cast_int_def capacity_def full_rb_def empty_rb_def size_rb_def
  reset_write_idx_def reset_read_idx_def initial_buffer_def SIZE_MAX_def
  MAX_ALLOWED_READ_DROPS_def UINT16_MAX_def memcpy_in_def memcpy_out_def Let_def

section \<open>Cursor arithmetic and the sentinel\<close>

text \<open>
  C7. For every cursor value and every capacity of at least 1,
  \<open>increment_with_capacity\<close> computes \<open>(c + 1) mod capacity\<close> in \<^verbatim>\<open>size_t\<close>, stores it
  into the cursor it was given and returns it; \<open>incremented_with_capacity\<close> returns
  \<open>(c + 1) mod capacity\<close> and returns no state, so it changes none; and what
  \<open>increment_with_capacity\<close> returns is \<open>incremented_with_capacity\<close> of the cursor's
  value before the call. Read as natural numbers, the sum wraps at \<open>2 ^ 64\<close> before the
  remainder is taken.
\<close>

theorem cursor_arithmetic:
  "capacity b \<noteq> 0 \<Longrightarrow>
     increment_with_capacity idx b
       = Returns ((load idx b + 1) mod capacity b,
                  store idx ((load idx b + 1) mod capacity b) b)
   \<and> load idx (store idx ((load idx b + 1) mod capacity b) b) = (load idx b + 1) mod capacity b
   \<and> incremented_with_capacity b c = Returns ((c + 1) mod capacity b)
   \<and> unat ((c + 1) mod capacity b) = ((unat c + 1) mod 2 ^ 64) mod unat (capacity b)
   \<and> map_outcome fst (increment_with_capacity idx b)
       = incremented_with_capacity b (load idx b)"
  by (simp add: increment_with_capacity_def incremented_with_capacity_def Let_def
      load_store unat_incremented)

theorem cursor_arithmetic_witness:
  "capacity (initial_buffer 4 3\<lparr>write_idx := 2\<rparr>) \<noteq> 0
   \<and> increment_with_capacity Write_idx (initial_buffer 4 3\<lparr>write_idx := 2\<rparr>)
       = Returns (0, initial_buffer 4 3\<lparr>write_idx := 0\<rparr>)
   \<and> incremented_with_capacity (initial_buffer 4 3\<lparr>write_idx := 2\<rparr>) 0 = Returns 1"
  using cursor_arithmetic [of "initial_buffer 4 3\<lparr>write_idx := 2\<rparr>" Write_idx 0]
  by (simp add: capacity_def initial_buffer_def)

text \<open>
  C6. The constructor leaves both cursors at \<open>SIZE_MAX\<close>. That value is not 0 and is no
  valid slot index (no index below a capacity equals it). For every capacity of at least 1,
  \<open>increment_with_capacity\<close> on a cursor that holds \<open>SIZE_MAX\<close> stores and returns 0,
  because \<open>SIZE_MAX + 1\<close> wraps to 0 in \<^verbatim>\<open>size_t\<close>; in particular the first advance of
  either cursor of a new buffer lands on slot 0.
\<close>

theorem sentinel_first_advance:
  "write_idx (initial_buffer isz cap) = SIZE_MAX
   \<and> read_idx (initial_buffer isz cap) = SIZE_MAX
   \<and> SIZE_MAX \<noteq> 0
   \<and> (\<forall>i. i < cap \<longrightarrow> i \<noteq> SIZE_MAX)
   \<and> SIZE_MAX + 1 = 0
   \<and> (unat SIZE_MAX + 1) mod 2 ^ 64 = 0
   \<and> (capacity b \<noteq> 0 \<and> load idx b = SIZE_MAX \<longrightarrow>
        increment_with_capacity idx b = Returns (0, store idx 0 b))
   \<and> (cap \<noteq> 0 \<longrightarrow>
        increment_with_capacity idx (initial_buffer isz cap)
          = Returns (0, store idx 0 (initial_buffer isz cap)))"
proof -
  have a: "SIZE_MAX \<noteq> 0" "SIZE_MAX + 1 = 0" by (simp_all add: SIZE_MAX_def)
  have b: "\<forall>i. i < cap \<longrightarrow> i \<noteq> SIZE_MAX"
    by (auto simp: SIZE_MAX_minus_one)
  have c: "(unat SIZE_MAX + 1) mod 2 ^ 64 = 0" by (simp add: SIZE_MAX_def)
  have d: "increment_with_capacity idx b' = Returns (0, store idx 0 b')"
    if "capacity b' \<noteq> 0" "load idx b' = SIZE_MAX" for b'
    using that by (simp add: increment_with_capacity_def SIZE_MAX_minus_one)
  have e: "load idx (initial_buffer isz cap) = SIZE_MAX"
    by (cases idx) (simp_all add: initial_buffer_def)
  have f: "capacity (initial_buffer isz cap) = cap"
    by (simp add: capacity_def initial_buffer_def)
  show ?thesis using a b c d e f by (simp add: initial_buffer_def)
qed

theorem sentinel_first_advance_witness:
  "(3::size_t) \<noteq> 0
   \<and> increment_with_capacity Read_idx (initial_buffer 4 3)
        = Returns (0, initial_buffer 4 3\<lparr>read_idx := 0\<rparr>)
   \<and> (2::size_t) < 3 \<and> (2::size_t) \<noteq> SIZE_MAX"
  using sentinel_first_advance [of 4 3 "initial_buffer 4 3" Read_idx]
  by (simp add: initial_buffer_def SIZE_MAX_def)

section \<open>Construction\<close>

text \<open>
  C3 as stated fails: the constructor has no check of its arguments, and a size of 0 is
  accepted. With item size 4 and capacity 0, and with item size 0 and capacity 3, the
  constructor returns a buffer.
\<close>

theorem degenerate_sizes_accepted:
  "ThreadSafeRingBuffer 4 0 =
     Returns \<lparr> buffer = [], item_size = 4, max_items_count = 0, active_items_count = 0,
               write_idx = SIZE_MAX, read_idx = SIZE_MAX, dropped_reads = 0,
               should_always_drop_reads = True \<rparr>
   \<and> ThreadSafeRingBuffer 0 3 =
     Returns \<lparr> buffer = [], item_size = 0, max_items_count = 3, active_items_count = 0,
               write_idx = SIZE_MAX, read_idx = SIZE_MAX, dropped_reads = 0,
               should_always_drop_reads = True \<rparr>"
  by (simp add: ThreadSafeRingBuffer_def initial_buffer_def vector_max_size_def)

text \<open>
  C3 as amended. Construction with degenerate sizes is not rejected: for every pair
  \<open>(item_size, capacity)\<close> with \<open>item_size < 1\<close> or \<open>capacity < 1\<close>, constructing a
  \<open>ThreadSafeRingBuffer\<close> succeeds and produces a buffer whose storage is empty, with
  occupancy 0, both cursors at the sentinel, no dropped reads and the drop flag set.
\<close>

theorem construction_unchecked:
  "isz < 1 \<or> cap < 1 \<Longrightarrow>
     ThreadSafeRingBuffer isz cap =
       Returns \<lparr> buffer = [], item_size = isz, max_items_count = cap,
                 active_items_count = 0, write_idx = SIZE_MAX, read_idx = SIZE_MAX,
                 dropped_reads = 0, should_always_drop_reads = True \<rparr>"
proof -
  assume "isz < 1 \<or> cap < 1"
  then have "isz = 0 \<or> cap = 0" by (simp add: word_less_1)
  then have "isz * cap = 0" by auto
  then show ?thesis
    by (simp add: ThreadSafeRingBuffer_def initial_buffer_def)
qed

theorem construction_unchecked_witness:
  "((0::size_t) < 1 \<or> (0::size_t) < 1)
   \<and> ThreadSafeRingBuffer 0 0 =
       Returns \<lparr> buffer = [], item_size = 0, max_items_count = 0,
                 active_items_count = 0, write_idx = SIZE_MAX, read_idx = SIZE_MAX,
                 dropped_reads = 0, should_always_drop_reads = True \<rparr>"
  using construction_unchecked [of 0 0] by simp

section \<open>Non-blocking write\<close>

text \<open>
  C4. In every state in which \<open>full()\<close> holds, \<open>write_nonblock\<close> does not invoke the
  writer callback (the caller's state is returned as it was, whatever the callback) and
  leaves the storage, the write cursor and the occupancy counter unchanged: the only
  field it changes is the drop flag. In every state in which \<open>full()\<close> does not hold,
  \<open>write_nonblock\<close> is the shared write primitive, run after the flag has been cleared;
  on a well-formed buffer that is: the write cursor advances, the writer callback is
  invoked on the slot it now names, and \<open>push\<close> is applied.
\<close>

theorem write_nonblock_full_or_not:
  "(full_rb b \<longrightarrow>
      write_nonblock cb (c, b) = Returns (c, b\<lparr>should_always_drop_reads := False\<rparr>)
      \<and> buffer (b\<lparr>should_always_drop_reads := False\<rparr>) = buffer b
      \<and> write_idx (b\<lparr>should_always_drop_reads := False\<rparr>) = write_idx b
      \<and> active_items_count (b\<lparr>should_always_drop_reads := False\<rparr>) = active_items_count b)
   \<and> (\<not> full_rb b \<longrightarrow>
      write_nonblock cb (c, b) = perform_write cb (c, b\<lparr>should_always_drop_reads := False\<rparr>))
   \<and> (\<not> full_rb b \<and> well_formed b \<longrightarrow>
      write_nonblock cb (c, b) =
        (let j = (write_idx b + 1) mod capacity b;
             x = cb c (slot_bytes b (unat j))
         in Returns (fst x, push (slot_update (b\<lparr>should_always_drop_reads := False,
                                                   write_idx := j\<rparr>)
                                    (unat j) (snd x)))))"
proof -
  let ?b0 = "b\<lparr>should_always_drop_reads := False\<rparr>"
  have dropped: "write_nonblock cb (c, b) = Returns (c, ?b0)" if "full_rb b"
    using that by (simp add: write_nonblock_def Let_def)
  have shared: "write_nonblock cb (c, b) = perform_write cb (c, ?b0)" if "\<not> full_rb b"
    using that by (simp add: write_nonblock_def Let_def)
  have written: "write_nonblock cb (c, b) =
        (let j = (write_idx b + 1) mod capacity b;
             x = cb c (slot_bytes b (unat j))
         in Returns (fst x, push (slot_update (b\<lparr>should_always_drop_reads := False,
                                                   write_idx := j\<rparr>)
                                    (unat j) (snd x))))"
    if nf: "\<not> full_rb b" and wf: "well_formed b"
  proof -
    have wf0: "well_formed ?b0" using wf by (simp add: well_formed_def)
    show ?thesis
      using perform_write_well_formed [OF wf0, of cb c] shared [OF nf]
      by (simp add: Let_def capacity_def slot_bytes_def)
  qed
  show ?thesis using dropped shared written by simp
qed

theorem write_nonblock_full_or_not_witness:
  "full_rb \<lparr> buffer = [5], item_size = 1, max_items_count = 1, active_items_count = 1,
            write_idx = 0, read_idx = SIZE_MAX, dropped_reads = 0,
            should_always_drop_reads = True \<rparr>
   \<and> write_nonblock (memcpy_in [7])
       ((), \<lparr> buffer = [5], item_size = 1, max_items_count = 1, active_items_count = 1,
               write_idx = 0, read_idx = SIZE_MAX, dropped_reads = 0,
               should_always_drop_reads = True \<rparr>)
     = Returns ((), \<lparr> buffer = [5], item_size = 1, max_items_count = 1,
                      active_items_count = 1, write_idx = 0, read_idx = SIZE_MAX,
                      dropped_reads = 0, should_always_drop_reads = False \<rparr>)
   \<and> \<not> full_rb (initial_buffer 1 1)
   \<and> write_nonblock (memcpy_in [7]) ((), initial_buffer 1 1)
     = perform_write (memcpy_in [7])
         ((), initial_buffer 1 1\<lparr>should_always_drop_reads := False\<rparr>)
   \<and> write_nonblock (memcpy_in [7]) ((), initial_buffer 1 1)
     = Returns ((), \<lparr> buffer = [7], item_size = 1, max_items_count = 1,
                      active_items_count = 1, write_idx = 0, read_idx = SIZE_MAX,
                      dropped_reads = 0, should_always_drop_reads = False \<rparr>)"
proof -
  let ?full = "\<lparr> buffer = [5], item_size = 1, max_items_count = 1, active_items_count = 1,
                 write_idx = 0, read_idx = SIZE_MAX, dropped_reads = 0,
                 should_always_drop_reads = True \<rparr>"
  let ?new = "initial_buffer 1 1"
  have f1: "full_rb ?full" by (simp add: full_rb_def capacity_def)
  have f2: "\<not> full_rb ?new" by (simp add: full_rb_def capacity_def initial_buffer_def)
  have wf: "well_formed ?new"
    by (simp add: well_formed_def initial_buffer_def vector_max_size_def)
  note on_full = write_nonblock_full_or_not [of ?full "memcpy_in [7]" "()", THEN conjunct1,
      THEN mp, OF f1, THEN conjunct1]
  note on_new = write_nonblock_full_or_not [of ?new "memcpy_in [7]" "()", THEN conjunct2]
  note shared = on_new [THEN conjunct1, THEN mp, OF f2]
  note written = on_new [THEN conjunct2, THEN mp, OF conjI [OF f2 wf]]
  have a: "write_nonblock (memcpy_in [7]) ((), ?full)
             = Returns ((), \<lparr> buffer = [5], item_size = 1, max_items_count = 1,
                      active_items_count = 1, write_idx = 0, read_idx = SIZE_MAX,
                      dropped_reads = 0, should_always_drop_reads = False \<rparr>)"
    using on_full by simp
  have b: "write_nonblock (memcpy_in [7]) ((), ?new)
     = Returns ((), \<lparr> buffer = [7], item_size = 1, max_items_count = 1,
                      active_items_count = 1, write_idx = 0, read_idx = SIZE_MAX,
                      dropped_reads = 0, should_always_drop_reads = False \<rparr>)"
    unfolding written
    by (simp add: Let_def memcpy_in_def slot_bytes_def slot_update_def push_def overlay_def
        capacity_def initial_buffer_def SIZE_MAX_def)
  show ?thesis using f1 f2 a shared b by blast
qed

section \<open>The read primitive and its drop policy\<close>

text \<open>
  C1. Let the read cursor's next slot be the write cursor's slot:
  \<open>incremented_with_capacity(read_idx) = write_idx\<close>.
  \<^item> If \<open>should_always_drop_reads\<close> is set or \<open>dropped_reads < MAX_ALLOWED_READ_DROPS\<close>,
    \<open>perform_read\<close> is suppressed: the reader callback is not invoked (the caller's
    state comes back unchanged, whatever the callback), and the buffer is unchanged but
    for \<open>dropped_reads\<close>, which is incremented by one (in \<^verbatim>\<open>uint32_t\<close>).
  \<^item> If the flag is clear and \<open>dropped_reads\<close> has reached the threshold, the read
    proceeds: on a well-formed buffer the callback is invoked on the write cursor's slot,
    the read cursor moves there, \<open>dropped_reads\<close> becomes 0 and \<open>pop\<close> is applied.
  \<^item> Every read that is not suppressed and returns leaves \<open>dropped_reads\<close> at 0,
    and on a well-formed buffer every read that is not suppressed does return.
  \<^item> On a buffer that is not empty, \<open>read\<close>, \<open>read_timeout\<close> and \<open>read_nonblock\<close>
    are this primitive.
\<close>

theorem perform_read_drop_policy:
  "(incremented_with_capacity b (read_idx b) = Returns (write_idx b)
      \<and> (should_always_drop_reads b \<or> dropped_reads b < MAX_ALLOWED_READ_DROPS)
    \<longrightarrow> perform_read cb (c, b) = Returns (c, b\<lparr>dropped_reads := dropped_reads b + 1\<rparr>)
        \<and> read_idx (b\<lparr>dropped_reads := dropped_reads b + 1\<rparr>) = read_idx b
        \<and> active_items_count (b\<lparr>dropped_reads := dropped_reads b + 1\<rparr>)
            = active_items_count b)
   \<and> (well_formed b
      \<and> incremented_with_capacity b (read_idx b) = Returns (write_idx b)
      \<and> \<not> should_always_drop_reads b \<and> MAX_ALLOWED_READ_DROPS \<le> dropped_reads b
    \<longrightarrow> perform_read cb (c, b) =
          (let r = cb c (slot_bytes b (unat (write_idx b)))
           in Returns (fst r, pop (slot_update (b\<lparr>read_idx := write_idx b, dropped_reads := 0\<rparr>)
                                      (unat (write_idx b)) (snd r)))))
   \<and> (\<not> (incremented_with_capacity b (read_idx b) = Returns (write_idx b)
           \<and> (should_always_drop_reads b \<or> dropped_reads b < MAX_ALLOWED_READ_DROPS))
      \<and> perform_read cb (c, b) = Returns (c', b')
    \<longrightarrow> dropped_reads b' = 0)
   \<and> (well_formed b
      \<and> \<not> (incremented_with_capacity b (read_idx b) = Returns (write_idx b)
           \<and> (should_always_drop_reads b \<or> dropped_reads b < MAX_ALLOWED_READ_DROPS))
    \<longrightarrow> (\<exists>c1 b1. perform_read cb (c, b) = Returns (c1, b1) \<and> dropped_reads b1 = 0))
   \<and> (\<not> empty_rb b
    \<longrightarrow> read_rb cb (c, b) = perform_read cb (c, b)
        \<and> read_timeout cb (c, b) = perform_read cb (c, b)
        \<and> read_nonblock cb (c, b) = perform_read cb (c, b))"
proof -
  have suppressed:
    "perform_read cb (c, b) = Returns (c, b\<lparr>dropped_reads := dropped_reads b + 1\<rparr>)"
    if "incremented_with_capacity b (read_idx b) = Returns (write_idx b)"
      and "should_always_drop_reads b \<or> dropped_reads b < MAX_ALLOWED_READ_DROPS"
    using that by (rule perform_read_suppressed)
  have forced:
    "perform_read cb (c, b) =
       (let r = cb c (slot_bytes b (unat (write_idx b)))
        in Returns (fst r, pop (slot_update (b\<lparr>read_idx := write_idx b, dropped_reads := 0\<rparr>)
                                   (unat (write_idx b)) (snd r))))"
    if wf: "well_formed b"
      and hit: "incremented_with_capacity b (read_idx b) = Returns (write_idx b)"
      and flag: "\<not> should_always_drop_reads b"
      and streak: "MAX_ALLOWED_READ_DROPS \<le> dropped_reads b"
  proof -
    have j: "(read_idx b + 1) mod capacity b = write_idx b"
      using hit by (simp add: incremented_with_capacity_def split: if_splits)
    have go: "\<not> ((read_idx b + 1) mod capacity b = write_idx b
               \<and> (should_always_drop_reads b \<or> dropped_reads b < MAX_ALLOWED_READ_DROPS))"
      using flag streak by (simp add: not_less)
    show ?thesis
      using perform_read_completes [OF wf go, of cb c] by (simp add: j Let_def)
  qed
  have reset: "dropped_reads b' = 0"
    if go: "\<not> (incremented_with_capacity b (read_idx b) = Returns (write_idx b)
               \<and> (should_always_drop_reads b \<or> dropped_reads b < MAX_ALLOWED_READ_DROPS))"
      and ret: "perform_read cb (c, b) = Returns (c', b')"
  proof -
    from ret have cap: "capacity b \<noteq> 0"
      by (auto simp: perform_read_def incremented_with_capacity_def split: if_splits)
    from ret go cap show ?thesis
      by (auto simp: perform_read_def incremented_with_capacity_def increment_with_capacity_def
            invoke_def pop_def Let_def
          split: if_splits outcome.splits prod.splits)
  qed
  have completes: "\<exists>c1 b1. perform_read cb (c, b) = Returns (c1, b1) \<and> dropped_reads b1 = 0"
    if wf: "well_formed b"
      and go: "\<not> (incremented_with_capacity b (read_idx b) = Returns (write_idx b)
               \<and> (should_always_drop_reads b \<or> dropped_reads b < MAX_ALLOWED_READ_DROPS))"
  proof -
    have cap: "capacity b \<noteq> 0" using wf by (simp add: well_formed_def capacity_def)
    have go': "\<not> ((read_idx b + 1) mod capacity b = write_idx b
               \<and> (should_always_drop_reads b \<or> dropped_reads b < MAX_ALLOWED_READ_DROPS))"
      using go cap by (simp add: incremented_with_capacity_def)
    show ?thesis
      using perform_read_completes [OF wf go', of cb c] by (simp add: Let_def pop_def)
  qed
  have entry: "read_rb cb (c, b) = perform_read cb (c, b)"
    "read_timeout cb (c, b) = perform_read cb (c, b)"
    "read_nonblock cb (c, b) = perform_read cb (c, b)" if "\<not> empty_rb b"
    using that by (simp_all add: read_rb_def read_timeout_def read_nonblock_def)
  show ?thesis
    using suppressed forced reset completes entry by simp
qed

theorem perform_read_drop_policy_witness:
  "perform_read memcpy_out
     ([], \<lparr> buffer = [7], item_size = 1, max_items_count = 1, active_items_count = 1,
             write_idx = 0, read_idx = SIZE_MAX, dropped_reads = 0,
             should_always_drop_reads = False \<rparr>)
   = Returns ([], \<lparr> buffer = [7], item_size = 1, max_items_count = 1, active_items_count = 1,
                    write_idx = 0, read_idx = SIZE_MAX, dropped_reads = 1,
                    should_always_drop_reads = False \<rparr>)
   \<and> perform_read memcpy_out
     ([], \<lparr> buffer = [7], item_size = 1, max_items_count = 1, active_items_count = 1,
             write_idx = 0, read_idx = SIZE_MAX, dropped_reads = 393210,
             should_always_drop_reads = False \<rparr>)
   = Returns ([[7]], \<lparr> buffer = [7], item_size = 1, max_items_count = 1,
                       active_items_count = 0, write_idx = 0, read_idx = 0,
                       dropped_reads = 0, should_always_drop_reads = False \<rparr>)
   \<and> dropped_reads \<lparr> buffer = [7], item_size = 1, max_items_count = 1,
                       active_items_count = 0, write_idx = 0, read_idx = 0,
                       dropped_reads = 0, should_always_drop_reads = False \<rparr> = 0
   \<and> read_rb memcpy_out
     ([], \<lparr> buffer = [7], item_size = 1, max_items_count = 1, active_items_count = 1,
             write_idx = 0, read_idx = SIZE_MAX, dropped_reads = 0,
             should_always_drop_reads = False \<rparr>)
   = Returns ([], \<lparr> buffer = [7], item_size = 1, max_items_count = 1, active_items_count = 1,
                    write_idx = 0, read_idx = SIZE_MAX, dropped_reads = 1,
                    should_always_drop_reads = False \<rparr>)"
proof -
  let ?s1 = "\<lparr> buffer = [7], item_size = 1, max_items_count = 1, active_items_count = 1,
               write_idx = 0, read_idx = SIZE_MAX, dropped_reads = 0,
               should_always_drop_reads = False \<rparr>"
  let ?s2 = "\<lparr> buffer = [7], item_size = 1, max_items_count = 1, active_items_count = 1,
               write_idx = 0, read_idx = SIZE_MAX, dropped_reads = 393210,
               should_always_drop_reads = False \<rparr>"
  have hit1: "incremented_with_capacity ?s1 (read_idx ?s1) = Returns (write_idx ?s1)"
    and hit2: "incremented_with_capacity ?s2 (read_idx ?s2) = Returns (write_idx ?s2)"
    by (simp_all add: incremented_with_capacity_def capacity_def SIZE_MAX_def)
  have low: "dropped_reads ?s1 < MAX_ALLOWED_READ_DROPS"
    and high: "MAX_ALLOWED_READ_DROPS \<le> dropped_reads ?s2"
    by (simp_all add: MAX_ALLOWED_READ_DROPS_value)
  have wf: "well_formed ?s2"
    by (simp add: well_formed_def vector_max_size_def)
  have ne: "\<not> empty_rb ?s1" by (simp add: empty_rb_def)
  have a: "perform_read memcpy_out ([], ?s1)
             = Returns ([], ?s1\<lparr>dropped_reads := dropped_reads ?s1 + 1\<rparr>)"
    and d: "read_rb memcpy_out ([], ?s1) = perform_read memcpy_out ([], ?s1)"
    using perform_read_drop_policy [of ?s1 memcpy_out "[]"] hit1 low ne by blast+
  have b: "perform_read memcpy_out ([], ?s2) =
          (let r = memcpy_out [] (slot_bytes ?s2 (unat (write_idx ?s2)))
           in Returns (fst r, pop (slot_update (?s2\<lparr>read_idx := write_idx ?s2, dropped_reads := 0\<rparr>)
                                      (unat (write_idx ?s2)) (snd r))))"
    using perform_read_drop_policy [of ?s2 memcpy_out "[]"] hit2 high wf by simp
  let ?s2' = "\<lparr> buffer = [7], item_size = 1, max_items_count = 1,
                active_items_count = 0, write_idx = 0, read_idx = 0,
                dropped_reads = 0, should_always_drop_reads = False \<rparr>"
  have b': "perform_read memcpy_out ([], ?s2) = Returns ([[7]], ?s2')"
    using b
    by (simp add: Let_def memcpy_out_def slot_bytes_def slot_update_def pop_def
        static_cast_int_def overlay_def)
  have go: "\<not> (incremented_with_capacity ?s2 (read_idx ?s2) = Returns (write_idx ?s2)
             \<and> (should_always_drop_reads ?s2 \<or> dropped_reads ?s2 < MAX_ALLOWED_READ_DROPS))"
    using high by (simp add: not_less)
  have e: "dropped_reads ?s2' = 0"
    using perform_read_drop_policy [of ?s2 memcpy_out "[]" "[[7]]" ?s2'] go b' by blast
  show ?thesis
    using a b' d e by simp
qed

text \<open>
  The write cursor at the sentinel. While the write cursor holds \<open>SIZE_MAX\<close>, as it
  does after \<open>reset_write_idx\<close>, the collision test of \<open>perform_read\<close> cannot succeed:
  for every read cursor value \<open>r\<close> and every capacity of at least 1,
  \<open>incremented_with_capacity r\<close> is below the capacity, the capacity is at most
  \<open>SIZE_MAX\<close>, and so the result differs from the write cursor. Hence every
  \<open>perform_read\<close> on a well-formed buffer in such a state invokes the reader callback on
  the read cursor's next slot, moves the read cursor there, clears \<open>dropped_reads\<close> and
  passes the occupancy counter through \<open>pop\<close>, which takes one off an occupancy between
  1 and \<open>2 ^ 31\<close>.
\<close>

lemma read_with_write_idx_at_sentinel:
  assumes "capacity b \<noteq> 0" and "write_idx b = SIZE_MAX"
  shows "incremented_with_capacity b r = Returns ((r + 1) mod capacity b)
       \<and> (r + 1) mod capacity b < capacity b
       \<and> capacity b \<le> SIZE_MAX
       \<and> (r + 1) mod capacity b \<noteq> SIZE_MAX
       \<and> incremented_with_capacity b r \<noteq> Returns (write_idx b)
       \<and> write_idx (reset_write_idx b') = SIZE_MAX
       \<and> (well_formed b \<longrightarrow>
             perform_read cb (c, b) =
               (let j = (read_idx b + 1) mod capacity b;
                    x = cb c (slot_bytes b (unat j))
                in Returns (fst x, pop (slot_update (b\<lparr>read_idx := j, dropped_reads := 0\<rparr>)
                                           (unat j) (snd x))))
           \<and> read_idx (pop (slot_update
                  (b\<lparr>read_idx := (read_idx b + 1) mod capacity b, dropped_reads := 0\<rparr>) i new))
               = (read_idx b + 1) mod capacity b
           \<and> active_items_count (pop (slot_update
                  (b\<lparr>read_idx := (read_idx b + 1) mod capacity b, dropped_reads := 0\<rparr>) i new))
               = active_items_count (pop b)
           \<and> (active_items_count b \<noteq> 0 \<and> unat (active_items_count b) \<le> 2 ^ 31
                \<longrightarrow> active_items_count (pop b) = active_items_count b - 1))"
proof -
  have peek: "incremented_with_capacity b r = Returns ((r + 1) mod capacity b)" for r
    using assms(1) by (simp add: incremented_with_capacity_def)
  have lt: "(r + 1) mod capacity b < capacity b" for r
    using assms(1) by (rule incremented_less)
  have le: "capacity b \<le> SIZE_MAX" by (simp add: SIZE_MAX_minus_one)
  have ne: "(r + 1) mod capacity b \<noteq> SIZE_MAX" for r
    using lt [of r] le by auto
  have rs: "write_idx (reset_write_idx b') = SIZE_MAX" by (simp add: reset_write_idx_def)
  have go: "\<not> ((read_idx b + 1) mod capacity b = write_idx b
             \<and> (should_always_drop_reads b \<or> dropped_reads b < MAX_ALLOWED_READ_DROPS))"
    using ne [of "read_idx b"] assms(2) by simp
  have fields:
    "read_idx (pop (slot_update
         (b\<lparr>read_idx := (read_idx b + 1) mod capacity b, dropped_reads := 0\<rparr>) i new))
       = (read_idx b + 1) mod capacity b"
    "active_items_count (pop (slot_update
         (b\<lparr>read_idx := (read_idx b + 1) mod capacity b, dropped_reads := 0\<rparr>) i new))
       = active_items_count (pop b)"
    by (simp_all add: pop_def)
  show ?thesis
    using peek lt le ne rs fields perform_read_completes [OF _ go, of cb c] pop_exact [of b]
    by (simp add: assms(2))
qed

lemma read_with_write_idx_at_sentinel_example:
  "perform_read memcpy_out
     ([], reset_write_idx
            \<lparr> buffer = [7], item_size = 1, max_items_count = 1, active_items_count = 1,
              write_idx = 0, read_idx = SIZE_MAX, dropped_reads = 1,
              should_always_drop_reads = False \<rparr>)
   = Returns ([[7]], \<lparr> buffer = [7], item_size = 1, max_items_count = 1,
                       active_items_count = 0, write_idx = SIZE_MAX, read_idx = 0,
                       dropped_reads = 0, should_always_drop_reads = False \<rparr>)"
proof -
  let ?s = "\<lparr> buffer = [7], item_size = 1, max_items_count = 1, active_items_count = 1,
              write_idx = SIZE_MAX, read_idx = SIZE_MAX, dropped_reads = 1,
              should_always_drop_reads = False \<rparr>"
  have cap: "capacity ?s \<noteq> 0" by (simp add: capacity_def)
  have w: "write_idx ?s = SIZE_MAX" by simp
  have wf: "well_formed ?s" by (simp add: well_formed_def vector_max_size_def)
  have "perform_read memcpy_out ([], ?s) =
          (let j = (read_idx ?s + 1) mod capacity ?s;
               x = memcpy_out [] (slot_bytes ?s (unat j))
           in Returns (fst x, pop (slot_update (?s\<lparr>read_idx := j, dropped_reads := 0\<rparr>)
                                      (unat j) (snd x))))"
    using read_with_write_idx_at_sentinel [OF cap w, of _ _ memcpy_out "[]"] wf by blast
  then show ?thesis
    by (simp add: reset_write_idx_def Let_def memcpy_out_def slot_bytes_def slot_update_def
        pop_def static_cast_int_def overlay_def capacity_def SIZE_MAX_def)
qed

text \<open>
  C10. On a full buffer \<open>write_nonblock\<close> transfers no data, yet it clears
  \<open>should_always_drop_reads\<close>, and that flag is the only thing it changes: the caller's
  state, the storage, both cursors, the occupancy and \<open>dropped_reads\<close> are as before.
  So a dropped non-blocking write ends the unconditional suppression that a preceding
  \<open>write_overwrite\<close> set up (every \<open>write_overwrite\<close> that returns leaves the flag
  set): in a well-formed state with the flag set, the read cursor's
  next slot equal to the write cursor's and \<open>dropped_reads\<close> at or beyond the threshold,
  \<open>perform_read\<close> is suppressed, whereas after the dropped write the same
  \<open>perform_read\<close> goes through.
\<close>

theorem dropped_write_clears_drop_flag:
  assumes "full_rb b"
  shows "write_nonblock wcb (c, b) = Returns (c, b\<lparr>should_always_drop_reads := False\<rparr>)
       \<and> (write_overwrite ocb (c0, b0) = Returns (c1, b1) \<longrightarrow> should_always_drop_reads b1)
       \<and> (well_formed b \<and> should_always_drop_reads b
            \<and> incremented_with_capacity b (read_idx b) = Returns (write_idx b)
            \<and> MAX_ALLOWED_READ_DROPS \<le> dropped_reads b
          \<longrightarrow> perform_read rcb (c, b)
                = Returns (c, b\<lparr>dropped_reads := dropped_reads b + 1\<rparr>)
              \<and> perform_read rcb (c, b\<lparr>should_always_drop_reads := False\<rparr>)
                = (let x = rcb c (slot_bytes b (unat (write_idx b)))
                   in Returns (fst x,
                        pop (slot_update (b\<lparr>should_always_drop_reads := False,
                                            read_idx := write_idx b, dropped_reads := 0\<rparr>)
                               (unat (write_idx b)) (snd x)))))"
proof -
  have drop: "write_nonblock wcb (c, b) = Returns (c, b\<lparr>should_always_drop_reads := False\<rparr>)"
    using assms by (simp add: write_nonblock_def Let_def)
  have before: "perform_read rcb (c, b) = Returns (c, b\<lparr>dropped_reads := dropped_reads b + 1\<rparr>)"
    if "should_always_drop_reads b"
      and "incremented_with_capacity b (read_idx b) = Returns (write_idx b)"
    using that by (simp add: perform_read_suppressed)
  have after: "perform_read rcb (c, b\<lparr>should_always_drop_reads := False\<rparr>)
                = (let x = rcb c (slot_bytes b (unat (write_idx b)))
                   in Returns (fst x,
                        pop (slot_update (b\<lparr>should_always_drop_reads := False,
                                            read_idx := write_idx b, dropped_reads := 0\<rparr>)
                               (unat (write_idx b)) (snd x))))"
    if wf: "well_formed b"
      and hit: "incremented_with_capacity b (read_idx b) = Returns (write_idx b)"
      and streak: "MAX_ALLOWED_READ_DROPS \<le> dropped_reads b"
  proof -
    let ?b0 = "b\<lparr>should_always_drop_reads := False\<rparr>"
    have wf0: "well_formed ?b0" using wf by (simp add: well_formed_def)
    have j: "(read_idx b + 1) mod capacity b = write_idx b"
      using hit by (simp add: incremented_with_capacity_def split: if_splits)
    have go: "\<not> ((read_idx ?b0 + 1) mod capacity ?b0 = write_idx ?b0
               \<and> (should_always_drop_reads ?b0 \<or> dropped_reads ?b0 < MAX_ALLOWED_READ_DROPS))"
      using streak by (simp add: not_less)
    have sb: "slot_bytes ?b0 i = slot_bytes b i" for i by (simp add: slot_bytes_def)
    have cp: "capacity ?b0 = capacity b" by (simp add: capacity_def)
    show ?thesis
      using perform_read_completes [OF wf0 go, of rcb c]
      by (simp add: j sb cp Let_def)
  qed
  have engaged: "should_always_drop_reads b1"
    if "write_overwrite ocb (c0, b0) = Returns (c1, b1)"
    using that
    by (auto simp: write_overwrite_def perform_write_def increment_with_capacity_def
          invoke_def slot_at_def push_def Let_def
        split: if_splits outcome.splits prod.splits)
  show ?thesis using drop engaged before after by simp
qed

theorem dropped_write_clears_drop_flag_witness:
  "write_overwrite (memcpy_in [7]) ([] :: bytes list, initial_buffer 1 1)
     = Returns ([], \<lparr> buffer = [7], item_size = 1, max_items_count = 1,
                      active_items_count = 1, write_idx = 0, read_idx = SIZE_MAX,
                      dropped_reads = 0, should_always_drop_reads = True \<rparr>)
   \<and> should_always_drop_reads
         \<lparr> buffer = [7], item_size = 1, max_items_count = 1,
           active_items_count = 1, write_idx = 0, read_idx = SIZE_MAX,
           dropped_reads = 0, should_always_drop_reads = True \<rparr>
   \<and> full_rb \<lparr> buffer = [7], item_size = 1, max_items_count = 1, active_items_count = 1,
            write_idx = 0, read_idx = SIZE_MAX, dropped_reads = 393210,
            should_always_drop_reads = True \<rparr>
   \<and> write_nonblock (memcpy_in [9])
       ([] :: bytes list, \<lparr> buffer = [7], item_size = 1, max_items_count = 1, active_items_count = 1,
               write_idx = 0, read_idx = SIZE_MAX, dropped_reads = 393210,
               should_always_drop_reads = True \<rparr>)
     = Returns ([], \<lparr> buffer = [7], item_size = 1, max_items_count = 1,
                      active_items_count = 1, write_idx = 0, read_idx = SIZE_MAX,
                      dropped_reads = 393210, should_always_drop_reads = False \<rparr>)
   \<and> perform_read memcpy_out
       ([], \<lparr> buffer = [7], item_size = 1, max_items_count = 1, active_items_count = 1,
               write_idx = 0, read_idx = SIZE_MAX, dropped_reads = 393210,
               should_always_drop_reads = True \<rparr>)
     = Returns ([], \<lparr> buffer = [7], item_size = 1, max_items_count = 1,
                      active_items_count = 1, write_idx = 0, read_idx = SIZE_MAX,
                      dropped_reads = 393211, should_always_drop_reads = True \<rparr>)
   \<and> perform_read memcpy_out
       ([], \<lparr> buffer = [7], item_size = 1, max_items_count = 1, active_items_count = 1,
               write_idx = 0, read_idx = SIZE_MAX, dropped_reads = 393210,
               should_always_drop_reads = False \<rparr>)
     = Returns ([[7]], \<lparr> buffer = [7], item_size = 1, max_items_count = 1,
                         active_items_count = 0, write_idx = 0, read_idx = 0,
                         dropped_reads = 0, should_always_drop_reads = False \<rparr>)"
proof -
  let ?s = "\<lparr> buffer = [7], item_size = 1, max_items_count = 1, active_items_count = 1,
              write_idx = 0, read_idx = SIZE_MAX, dropped_reads = 393210,
              should_always_drop_reads = True \<rparr>"
  have full: "full_rb ?s" by (simp add: full_rb_def capacity_def)
  have wf: "well_formed ?s" by (simp add: well_formed_def vector_max_size_def)
  have hit: "incremented_with_capacity ?s (read_idx ?s) = Returns (write_idx ?s)"
    by (simp add: incremented_with_capacity_def capacity_def SIZE_MAX_def)
  have streak: "MAX_ALLOWED_READ_DROPS \<le> dropped_reads ?s"
    by (simp add: MAX_ALLOWED_READ_DROPS_value)
  have flag: "should_always_drop_reads ?s" by simp
  have hyp: "well_formed ?s \<and> should_always_drop_reads ?s
             \<and> incremented_with_capacity ?s (read_idx ?s) = Returns (write_idx ?s)
             \<and> MAX_ALLOWED_READ_DROPS \<le> dropped_reads ?s"
    using wf flag hit streak by blast
  let ?s0 = "\<lparr> buffer = [7], item_size = 1, max_items_count = 1,
               active_items_count = 1, write_idx = 0, read_idx = SIZE_MAX,
               dropped_reads = 0, should_always_drop_reads = True \<rparr>"
  have ow: "write_overwrite (memcpy_in [7]) ([] :: bytes list, initial_buffer 1 1)
              = Returns ([], ?s0)"
    by (simp add: call_defs)
  note inst = dropped_write_clears_drop_flag
    [OF full, of "memcpy_in [9]" "[]" "memcpy_in [7]" "[]" "initial_buffer 1 1" "[]" ?s0
       memcpy_out]
  note a = inst [THEN conjunct1]
  note o = inst [THEN conjunct2, THEN conjunct1, THEN mp, OF ow]
  note b = inst [THEN conjunct2, THEN conjunct2, THEN mp, OF hyp, THEN conjunct1]
  note c = inst [THEN conjunct2, THEN conjunct2, THEN mp, OF hyp, THEN conjunct2]
  show ?thesis
    using full ow o a b c
    by (simp add: Let_def memcpy_out_def slot_bytes_def slot_update_def pop_def
        static_cast_int_def overlay_def)
qed

section \<open>Frame conditions and invariants\<close>

subsection \<open>What a call leaves unchanged\<close>

lemma invoke_Returns:
  assumes "invoke cb k (c, b) = Returns (c', b')"
  shows "length (buffer b') = length (buffer b)"
    and "item_size b' = item_size b"
    and "max_items_count b' = max_items_count b"
    and "active_items_count b' = active_items_count b"
    and "write_idx b' = write_idx b"
    and "read_idx b' = read_idx b"
    and "dropped_reads b' = dropped_reads b"
    and "should_always_drop_reads b' = should_always_drop_reads b"
  using assms
  by (auto simp: invoke_def slot_at_def split: if_splits prod.splits)

lemma perform_write_Returns:
  assumes "perform_write cb (c, b) = Returns (c', b')"
  shows "length (buffer b') = length (buffer b)"
    and "item_size b' = item_size b"
    and "max_items_count b' = max_items_count b"
    and "active_items_count b' = min (active_items_count b + 1) (capacity b)"
    and "write_idx b' = (write_idx b + 1) mod capacity b"
    and "read_idx b' = read_idx b"
    and "dropped_reads b' = dropped_reads b"
    and "should_always_drop_reads b' = should_always_drop_reads b"
proof -
  let ?j = "(write_idx b + 1) mod capacity b"
  from assms have cap: "capacity b \<noteq> 0"
    by (auto simp: perform_write_def increment_with_capacity_def split: if_splits)
  then have inc: "increment_with_capacity Write_idx b = Returns (?j, b\<lparr>write_idx := ?j\<rparr>)"
    by (simp add: increment_with_capacity_def Let_def)
  from assms obtain b2 where
    inv: "invoke cb (?j * item_size b) (c, b\<lparr>write_idx := ?j\<rparr>) = Returns (c', b2)"
    and b': "b' = push b2"
    by (auto simp: perform_write_def inc split: outcome.splits)
  note f = invoke_Returns [OF inv]
  show "length (buffer b') = length (buffer b)" using f(1) by (simp add: b')
  show "item_size b' = item_size b" using f(2) by (simp add: b')
  show "max_items_count b' = max_items_count b" using f(3) by (simp add: b')
  show "active_items_count b' = min (active_items_count b + 1) (capacity b)"
    using f(3,4) by (simp add: b' push_def capacity_def)
  show "write_idx b' = ?j" using f(5) by (simp add: b')
  show "read_idx b' = read_idx b" using f(6) by (simp add: b')
  show "dropped_reads b' = dropped_reads b" using f(7) by (simp add: b')
  show "should_always_drop_reads b' = should_always_drop_reads b" using f(8) by (simp add: b')
qed

lemma perform_read_Returns:
  assumes "perform_read cb (c, b) = Returns (c', b')"
  shows "length (buffer b') = length (buffer b)"
    and "item_size b' = item_size b"
    and "max_items_count b' = max_items_count b"
    and "write_idx b' = write_idx b"
    and "should_always_drop_reads b' = should_always_drop_reads b"
    and "active_items_count b' = active_items_count b
         \<or> active_items_count b' = active_items_count (pop b)"
proof -
  let ?j = "(read_idx b + 1) mod capacity b"
  let ?b1 = "b\<lparr>dropped_reads := 0, read_idx := ?j\<rparr>"
  from assms have cap: "capacity b \<noteq> 0"
    by (auto simp: perform_read_def incremented_with_capacity_def split: if_splits)
  then have peek: "incremented_with_capacity b (read_idx b) = Returns ?j"
    by (simp add: incremented_with_capacity_def)
  have inc: "increment_with_capacity Read_idx (b\<lparr>dropped_reads := 0\<rparr>) = Returns (?j, ?b1)"
    using cap by (simp add: increment_with_capacity_def capacity_def Let_def)
  from assms have
    "(c' = c \<and> b' = b\<lparr>dropped_reads := dropped_reads b + 1\<rparr>)
     \<or> (\<exists>b2. invoke cb (?j * item_size b) (c, ?b1) = Returns (c', b2) \<and> b' = pop b2)"
    by (auto simp: perform_read_def peek inc split: if_splits outcome.splits)
  then have
    "length (buffer b') = length (buffer b)
     \<and> item_size b' = item_size b
     \<and> max_items_count b' = max_items_count b
     \<and> write_idx b' = write_idx b
     \<and> should_always_drop_reads b' = should_always_drop_reads b
     \<and> (active_items_count b' = active_items_count b
         \<or> active_items_count b' = active_items_count (pop b))"
  proof (elim disjE exE conjE)
    assume "c' = c" and "b' = b\<lparr>dropped_reads := dropped_reads b + 1\<rparr>"
    then show ?thesis by simp
  next
    fix b2
    assume inv: "invoke cb (?j * item_size b) (c, ?b1) = Returns (c', b2)" and b': "b' = pop b2"
    note f = invoke_Returns [OF inv]
    have "active_items_count (pop b2) = active_items_count (pop b)"
      using f(4) by (simp add: pop_def)
    then show ?thesis using f by (simp add: b')
  qed
  then show "length (buffer b') = length (buffer b)"
    and "item_size b' = item_size b"
    and "max_items_count b' = max_items_count b"
    and "write_idx b' = write_idx b"
    and "should_always_drop_reads b' = should_always_drop_reads b"
    and "active_items_count b' = active_items_count b
         \<or> active_items_count b' = active_items_count (pop b)"
    by simp_all
qed

lemma exec_frame:
  assumes "exec x (c, b) = Returns (c', b')"
  shows "length (buffer b') = length (buffer b)
       \<and> item_size b' = item_size b
       \<and> max_items_count b' = max_items_count b"
proof (cases x)
  case (Write cb)
  with assms have "perform_write cb (c, b\<lparr>should_always_drop_reads := False\<rparr>) = Returns (c', b')"
    by (simp add: write_rb_def Let_def split: if_splits)
  from perform_write_Returns(1-3) [OF this] show ?thesis by simp
next
  case (Write_overwrite cb)
  with assms have "perform_write cb (c, b\<lparr>should_always_drop_reads := True\<rparr>) = Returns (c', b')"
    by (simp add: write_overwrite_def)
  from perform_write_Returns(1-3) [OF this] show ?thesis by simp
next
  case (Write_nonblock cb)
  with assms have
    "perform_write cb (c, b\<lparr>should_always_drop_reads := False\<rparr>) = Returns (c', b')
     \<or> b' = b\<lparr>should_always_drop_reads := False\<rparr>"
    by (auto simp: write_nonblock_def Let_def split: if_splits)
  then show ?thesis using perform_write_Returns(1-3) [of cb c _ c' b'] by auto
next
  case (Read cb)
  with assms have "perform_read cb (c, b) = Returns (c', b')"
    by (simp add: read_rb_def split: if_splits)
  from perform_read_Returns(1-3) [OF this] show ?thesis by simp
next
  case (Read_timeout cb)
  with assms have "perform_read cb (c, b) = Returns (c', b') \<or> b' = b"
    by (auto simp: read_timeout_def split: if_splits)
  then show ?thesis using perform_read_Returns(1-3) [of cb c b c' b'] by auto
next
  case (Read_nonblock cb)
  with assms have "perform_read cb (c, b) = Returns (c', b') \<or> b' = b"
    by (auto simp: read_nonblock_def split: if_splits)
  then show ?thesis using perform_read_Returns(1-3) [of cb c b c' b'] by auto
next
  case Reset_write_idx
  with assms show ?thesis by (auto simp: reset_write_idx_def)
next
  case Reset_read_idx
  with assms show ?thesis by (auto simp: reset_read_idx_def)
qed

lemma exec_well_formed:
  assumes "exec x (c, b) = Returns (c', b')" and "well_formed b"
  shows "well_formed b'"
  using exec_frame [OF assms(1)] assms(2) by (simp add: well_formed_def)

text \<open>
  The occupancy never exceeds the capacity: \<open>push\<close> takes a minimum with the capacity,
  \<open>pop\<close> never gives more than it was given, and nothing else writes the counter.
\<close>

lemma exec_size_le_capacity:
  assumes "exec x (c, b) = Returns (c', b')"
    and "active_items_count b \<le> capacity b"
  shows "active_items_count b' \<le> capacity b'"
proof -
  have cap: "capacity b' = capacity b"
    using exec_frame [OF assms(1)] by (simp add: capacity_def)
  have w: "active_items_count b' \<le> capacity b"
    if "perform_write cb (c, b0) = Returns (c', b')" and "capacity b0 = capacity b" for cb b0
    using perform_write_Returns(4) [OF that(1)] that(2) by simp
  have r: "active_items_count b' \<le> capacity b"
    if "perform_read cb (c, b) = Returns (c', b')" for cb
    using perform_read_Returns(6) [OF that] pop_le [of b] assms(2) by auto
  show ?thesis
  proof (cases x)
    case (Write cb)
    with assms(1) have "perform_write cb (c, b\<lparr>should_always_drop_reads := False\<rparr>) = Returns (c', b')"
      by (simp add: write_rb_def Let_def split: if_splits)
    then show ?thesis using w cap by (simp add: capacity_def)
  next
    case (Write_overwrite cb)
    with assms(1) have "perform_write cb (c, b\<lparr>should_always_drop_reads := True\<rparr>) = Returns (c', b')"
      by (simp add: write_overwrite_def)
    then show ?thesis using w cap by (simp add: capacity_def)
  next
    case (Write_nonblock cb)
    with assms(1) have
      "perform_write cb (c, b\<lparr>should_always_drop_reads := False\<rparr>) = Returns (c', b')
       \<or> b' = b\<lparr>should_always_drop_reads := False\<rparr>"
      by (auto simp: write_nonblock_def Let_def split: if_splits)
    then show ?thesis using w [of cb "b\<lparr>should_always_drop_reads := False\<rparr>"] cap assms(2)
      by (auto simp: capacity_def)
  next
    case (Read cb)
    with assms(1) have "perform_read cb (c, b) = Returns (c', b')"
      by (simp add: read_rb_def split: if_splits)
    then show ?thesis using r cap by simp
  next
    case (Read_timeout cb)
    with assms(1) have "perform_read cb (c, b) = Returns (c', b') \<or> b' = b"
      by (auto simp: read_timeout_def split: if_splits)
    then show ?thesis using r [of cb] cap assms(2) by auto
  next
    case (Read_nonblock cb)
    with assms(1) have "perform_read cb (c, b) = Returns (c', b') \<or> b' = b"
      by (auto simp: read_nonblock_def split: if_splits)
    then show ?thesis using r [of cb] cap assms(2) by auto
  next
    case Reset_write_idx
    with assms show ?thesis by (auto simp: reset_write_idx_def capacity_def)
  next
    case Reset_read_idx
    with assms show ?thesis by (auto simp: reset_read_idx_def capacity_def)
  qed
qed

lemma run_invariants:
  assumes "run xs (c, b) = Returns (c', b')"
  shows "item_size b' = item_size b \<and> max_items_count b' = max_items_count b
       \<and> length (buffer b') = length (buffer b)
       \<and> (well_formed b \<longrightarrow> well_formed b')
       \<and> (active_items_count b \<le> capacity b \<longrightarrow> active_items_count b' \<le> capacity b')"
  using assms
proof (induction xs arbitrary: c b)
  case Nil
  then show ?case by simp
next
  case (Cons x xs)
  from Cons.prems obtain c1 b1 where
    step: "exec x (c, b) = Returns (c1, b1)" and rest: "run xs (c1, b1) = Returns (c', b')"
    by (auto split: outcome.splits)
  from Cons.IH [OF rest] exec_frame [OF step] exec_well_formed [OF step]
    exec_size_le_capacity [OF step]
  show ?case by simp
qed

lemma run_append:
  "run (xs @ ys) s =
     (case run xs s of Fails e \<Rightarrow> Fails e | Blocks \<Rightarrow> Blocks | Returns s' \<Rightarrow> run ys s')"
  by (induction xs arbitrary: s) (auto split: outcome.splits)

text \<open>From construction on, \<open>0 \<le> size() \<le> capacity()\<close> after every run that returns.\<close>

lemma size_within_capacity:
  assumes "run xs (c, initial_buffer isz cap) = Returns (c', b')"
  shows "0 \<le> size_rb b' \<and> size_rb b' \<le> capacity b' \<and> capacity b' = cap"
proof -
  have "active_items_count (initial_buffer isz cap) \<le> capacity (initial_buffer isz cap)"
    by (simp add: initial_buffer_def)
  with run_invariants [OF assms] show ?thesis
    by (auto simp: size_rb_def capacity_def initial_buffer_def)
qed

section \<open>Slots as independent cells\<close>

lemma splice_before:
  assumes "k + m \<le> a" and "a \<le> length xs"
  shows "take m (drop k (take a xs @ ys)) = take m (drop k xs)"
proof -
  have "drop k (take a xs @ ys) = take (a - k) (drop k xs) @ ys"
    using assms by (simp add: drop_take)
  moreover have "m \<le> length (take (a - k) (drop k xs))"
    using assms by simp
  ultimately have "take m (drop k (take a xs @ ys)) = take m (take (a - k) (drop k xs))"
    by simp
  also have "\<dots> = take m (drop k xs)"
    using assms by (simp add: min_def)
  finally show ?thesis .
qed

lemma splice_after:
  assumes "a + length s \<le> k" and "a \<le> length xs"
  shows "drop k (take a xs @ s @ drop (a + length s) xs) = drop k xs"
proof -
  have "length (take a xs) = a" using assms(2) by simp
  then have "drop k (take a xs @ s @ drop (a + length s) xs)
               = drop (k - a - length s) (drop (a + length s) xs)"
    using assms(1) by simp
  also have "\<dots> = drop k xs" using assms(1) by simp
  finally show ?thesis .
qed

lemma splice_at:
  assumes "a \<le> length xs" and "length s = n"
  shows "take n (drop a (take a xs @ s @ ys)) = s"
  using assms by simp

lemma slot_range:
  assumes "well_formed b" and "i < unat (capacity b)"
  shows "i * unat (item_size b) + unat (item_size b) \<le> length (buffer b)"
proof -
  let ?n = "unat (item_size b)" and ?m = "unat (max_items_count b)"
  have "Suc i \<le> ?m" using assms by (simp add: capacity_def)
  then have "Suc i * ?n \<le> ?m * ?n" by (rule mult_le_mono1)
  then show ?thesis using assms(1) by (simp add: well_formed_def mult.commute)
qed

lemma slot_bytes_update_same:
  assumes "well_formed b" and "i < unat (capacity b)"
  shows "slot_bytes (slot_update b i new) i = overlay (slot_bytes b i) new"
proof -
  let ?n = "unat (item_size b)"
  let ?s = "overlay (slot_bytes b i) new"
  have len: "length ?s = ?n"
    using slot_bytes_length [OF assms] by simp
  have a: "i * ?n \<le> length (buffer b)" using slot_range [OF assms] by simp
  have buf: "buffer (slot_update b i new)
               = take (i * ?n) (buffer b) @ ?s @ drop (i * ?n + ?n) (buffer b)"
    by (simp add: slot_update_def)
  have "slot_bytes (slot_update b i new) i
          = take ?n (drop (i * ?n) (buffer (slot_update b i new)))"
    by (simp add: slot_bytes_def)
  also have "\<dots> = take ?n (drop (i * ?n)
                        (take (i * ?n) (buffer b) @ ?s @ drop (i * ?n + ?n) (buffer b)))"
    by (simp only: buf)
  also have "\<dots> = ?s" using a len by (rule splice_at)
  finally show ?thesis .
qed

lemma slot_bytes_update_other:
  assumes "well_formed b" and "i < unat (capacity b)" and "j \<noteq> i"
  shows "slot_bytes (slot_update b i new) j = slot_bytes b j"
proof -
  let ?n = "unat (item_size b)"
  let ?s = "overlay (slot_bytes b i) new"
  have len: "length ?s = ?n" using slot_bytes_length [OF assms(1,2)] by simp
  have a: "i * ?n \<le> length (buffer b)" using slot_range [OF assms(1,2)] by simp
  have buf: "buffer (slot_update b i new)
               = take (i * ?n) (buffer b) @ ?s @ drop (i * ?n + length ?s) (buffer b)"
    using slot_bytes_length [OF assms(1,2)] by (simp add: slot_update_def)
  have sb: "slot_bytes (slot_update b i new) j
              = take ?n (drop (j * ?n) (buffer (slot_update b i new)))"
    by (simp add: slot_bytes_def)
  show ?thesis
  proof (cases "j < i")
    case True
    then have "Suc j * ?n \<le> i * ?n" by (intro mult_le_mono1) simp
    then have le: "j * ?n + ?n \<le> i * ?n" by simp
    show ?thesis
      unfolding sb buf slot_bytes_def [of b j] by (rule splice_before [OF le a])
  next
    case False
    with assms(3) have "Suc i \<le> j" by simp
    then have "Suc i * ?n \<le> j * ?n" by (rule mult_le_mono1)
    then have le: "i * ?n + length ?s \<le> j * ?n"
      using slot_bytes_length [OF assms(1,2)] by simp
    show ?thesis
      unfolding sb buf slot_bytes_def [of b j]
      by (rule arg_cong [where f = "take ?n"]) (rule splice_after [OF le a])
  qed
qed

lemma slot_update_same_bytes:
  assumes "well_formed b" and "i < unat (capacity b)"
  shows "slot_update b i (slot_bytes b i) = b"
proof -
  let ?n = "unat (item_size b)"
  have ov: "overlay (slot_bytes b i) (slot_bytes b i) = slot_bytes b i" by simp
  have eq: "take (i * ?n) (buffer b) @ take ?n (drop (i * ?n) (buffer b))
          @ drop (i * ?n + ?n) (buffer b) = buffer b"
  proof -
    have "drop (i * ?n + ?n) (buffer b) = drop ?n (drop (i * ?n) (buffer b))"
      by (simp add: add.commute)
    then show ?thesis by (simp only: append_take_drop_id)
  qed
  have "slot_update b i (slot_bytes b i)
          = b\<lparr>buffer := take (i * ?n) (buffer b) @ take ?n (drop (i * ?n) (buffer b))
                            @ drop (i * ?n + ?n) (buffer b)\<rparr>"
    unfolding slot_update_def ov unfolding slot_bytes_def ..
  also have "\<dots> = b\<lparr>buffer := buffer b\<rparr>" by (simp only: eq)
  also have "\<dots> = b" by simp
  finally show ?thesis .
qed

section \<open>Writes followed by reads\<close>

lemma unat_succ_below:
  fixes x y :: size_t
  assumes "x < y"
  shows "unat (x + 1) = unat x + 1"
proof -
  have "unat x < unat y" using assms by (simp add: word_less_nat_alt)
  moreover have "unat y < 2 ^ 64" using unsigned_less [of y] by simp
  ultimately have "unat x + unat (1 :: size_t) < 2 ^ LENGTH(64)" by simp
  then show ?thesis by (simp only: unat_add_lem [THEN iffD1] unat_1)
qed

lemma capacity_update [simp]:
  "capacity (b\<lparr>buffer := v1\<rparr>) = capacity b"
  "capacity (b\<lparr>active_items_count := v2\<rparr>) = capacity b"
  "capacity (b\<lparr>write_idx := v3\<rparr>) = capacity b"
  "capacity (b\<lparr>read_idx := v4\<rparr>) = capacity b"
  "capacity (b\<lparr>dropped_reads := v5\<rparr>) = capacity b"
  "capacity (b\<lparr>should_always_drop_reads := v6\<rparr>) = capacity b"
  by (simp_all add: capacity_def)

lemma pop_exact_record:
  assumes "active_items_count b \<noteq> 0" and "unat (active_items_count b) \<le> 2 ^ 31"
  shows "pop b = b\<lparr>active_items_count := active_items_count b - 1\<rparr>"
  using pop_exact [OF assms] by (simp add: pop_def)

subsection \<open>One blocking write of an item\<close>

lemma write_step:
  assumes wf: "well_formed b"
    and next_slot: "write_idx b + 1 = active_items_count b"
    and room: "active_items_count b < capacity b"
    and len: "length item = unat (item_size b)"
  shows "write_rb (memcpy_in item) (c, b) =
           Returns (c, slot_update
                         (b\<lparr>active_items_count := active_items_count b + 1,
                            write_idx := active_items_count b,
                            should_always_drop_reads := False\<rparr>)
                         (unat (active_items_count b)) item)"
proof -
  let ?k = "active_items_count b"
  let ?b0 = "b\<lparr>should_always_drop_reads := False\<rparr>"
  have wf0: "well_formed ?b0" using wf by (simp add: well_formed_def)
  have nf: "\<not> full_rb ?b0" using room by (simp add: full_rb_def)
  have j: "(write_idx b + 1) mod capacity b = ?k"
    using next_slot room by (simp add: mod_word_less)
  have "push (slot_update (?b0\<lparr>write_idx := ?k\<rparr>) (unat ?k) item)
          = slot_update (b\<lparr>active_items_count := ?k + 1, write_idx := ?k,
                           should_always_drop_reads := False\<rparr>) (unat ?k) item"
    using room inc_le [OF room]
    by (simp add: push_def slot_update_def slot_bytes_def capacity_def min_def)
  then show ?thesis
    using perform_write_well_formed [OF wf0, of "memcpy_in item" c] nf
    by (simp add: write_rb_def Let_def j memcpy_in_def)
qed

subsection \<open>A sequence of blocking writes into free slots\<close>

lemma writes_fill:
  assumes "well_formed b"
    and "write_idx b + 1 = active_items_count b"
    and "unat (active_items_count b) + length items \<le> unat (capacity b)"
    and "\<forall>item\<in>set items. length item = unat (item_size b)"
  shows "\<exists>b'. run (map (\<lambda>item. Write (memcpy_in item)) items) (c, b) = Returns (c, b')
          \<and> well_formed b'
          \<and> item_size b' = item_size b \<and> max_items_count b' = max_items_count b
          \<and> unat (active_items_count b') = unat (active_items_count b) + length items
          \<and> write_idx b' + 1 = active_items_count b'
          \<and> read_idx b' = read_idx b \<and> dropped_reads b' = dropped_reads b
          \<and> (items \<noteq> [] \<longrightarrow> \<not> should_always_drop_reads b')
          \<and> (\<forall>i<length items. slot_bytes b' (unat (active_items_count b) + i) = items ! i)
          \<and> (\<forall>i<unat (active_items_count b). slot_bytes b' i = slot_bytes b i)"
  using assms
proof (induction items arbitrary: b)
  case Nil
  then show ?case by simp
next
  case (Cons item items)
  let ?k = "active_items_count b"
  let ?b1 = "slot_update (b\<lparr>active_items_count := ?k + 1, write_idx := ?k,
                            should_always_drop_reads := False\<rparr>) (unat ?k) item"
  have wf: "well_formed b" by fact
  have room_nat: "unat ?k < unat (capacity b)" using Cons.prems(3) by simp
  then have room: "?k < capacity b" by (simp add: word_less_nat_alt)
  have len: "length item = unat (item_size b)" using Cons.prems(4) by simp
  have step: "write_rb (memcpy_in item) (c, b) = Returns (c, ?b1)"
    using wf Cons.prems(2) room len by (rule write_step)
  have wf_upd: "well_formed (b\<lparr>active_items_count := ?k + 1, write_idx := ?k,
                              should_always_drop_reads := False\<rparr>)"
    using wf by (simp add: well_formed_def)
  have wf1: "well_formed ?b1"
    using wf_upd room_nat by (intro well_formed_slot_update) simp_all
  have k1: "unat (active_items_count ?b1) = unat ?k + 1"
    using unat_succ_below [OF room] by simp
  have p2: "write_idx ?b1 + 1 = active_items_count ?b1" by simp
  have p3: "unat (active_items_count ?b1) + length items \<le> unat (capacity ?b1)"
    using Cons.prems(3) k1 by simp
  have p4: "\<forall>x\<in>set items. length x = unat (item_size ?b1)"
    using Cons.prems(4) by simp
  from Cons.IH [OF wf1 p2 p3 p4] obtain b' where
    run': "run (map (\<lambda>item. Write (memcpy_in item)) items) (c, ?b1) = Returns (c, b')"
    and wf': "well_formed b'"
    and isz': "item_size b' = item_size ?b1" and cap': "max_items_count b' = max_items_count ?b1"
    and occ': "unat (active_items_count b') = unat (active_items_count ?b1) + length items"
    and widx': "write_idx b' + 1 = active_items_count b'"
    and ridx': "read_idx b' = read_idx ?b1" and dr': "dropped_reads b' = dropped_reads ?b1"
    and flag': "items \<noteq> [] \<longrightarrow> \<not> should_always_drop_reads b'"
    and new': "\<forall>i<length items. slot_bytes b' (unat (active_items_count ?b1) + i) = items ! i"
    and old': "\<forall>i<unat (active_items_count ?b1). slot_bytes b' i = slot_bytes ?b1 i"
    by blast
  have flag1: "\<not> should_always_drop_reads b'"
  proof (cases "items = []")
    case True
    with run' have "b' = ?b1" by simp
    then show ?thesis by simp
  next
    case False
    with flag' show ?thesis by simp
  qed
  have mine: "slot_bytes ?b1 (unat ?k) = item"
    using slot_bytes_update_same [OF wf_upd, of "unat ?k" item] room_nat
      slot_bytes_length [OF wf_upd, of "unat ?k"] len
    by simp
  have others: "slot_bytes ?b1 i = slot_bytes b i" if "i \<noteq> unat ?k" for i
    using slot_bytes_update_other [OF wf_upd, of "unat ?k" i item] room_nat that
    by (simp add: slot_bytes_def)
  have new: "slot_bytes b' (unat ?k + i) = (item # items) ! i" if "i < length (item # items)" for i
  proof (cases i)
    case 0
    have "slot_bytes b' (unat ?k) = slot_bytes ?b1 (unat ?k)" using old' k1 by simp
    then show ?thesis using mine 0 by simp
  next
    case (Suc i')
    then have "i' < length items" using that by simp
    with new' have "slot_bytes b' (unat (active_items_count ?b1) + i') = items ! i'" by simp
    then show ?thesis using Suc k1 by simp
  qed
  have old: "slot_bytes b' i = slot_bytes b i" if "i < unat ?k" for i
  proof -
    have "slot_bytes b' i = slot_bytes ?b1 i" using old' k1 that by simp
    then show ?thesis using others [of i] that by simp
  qed
  have "run (map (\<lambda>item. Write (memcpy_in item)) (item # items)) (c, b) = Returns (c, b')"
    using step run' by simp
  then show ?case
    using wf' isz' cap' occ' k1 widx' ridx' dr' flag1 new old by auto
qed

subsection \<open>Reads behind the write cursor\<close>

lemma slot_bytes_fields [simp]:
  "slot_bytes (b\<lparr>active_items_count := v2\<rparr>) i = slot_bytes b i"
  "slot_bytes (b\<lparr>write_idx := v3\<rparr>) i = slot_bytes b i"
  "slot_bytes (b\<lparr>read_idx := v4\<rparr>) i = slot_bytes b i"
  "slot_bytes (b\<lparr>dropped_reads := v5\<rparr>) i = slot_bytes b i"
  "slot_bytes (b\<lparr>should_always_drop_reads := v6\<rparr>) i = slot_bytes b i"
  by (simp_all add: slot_bytes_def)

lemma read_step:
  assumes wf: "well_formed b"
    and ne: "active_items_count b \<noteq> 0"
    and small: "unat (active_items_count b) \<le> 2 ^ 31"
    and slot: "read_idx b + 1 = j" and below: "j < capacity b"
    and go: "\<not> (j = write_idx b
               \<and> (should_always_drop_reads b \<or> dropped_reads b < MAX_ALLOWED_READ_DROPS))"
  shows "read_rb memcpy_out (target, b) =
           Returns (target @ [slot_bytes b (unat j)],
                    b\<lparr>active_items_count := active_items_count b - 1,
                      read_idx := j, dropped_reads := 0\<rparr>)"
proof -
  let ?b1 = "b\<lparr>read_idx := j, dropped_reads := 0\<rparr>"
  have j: "(read_idx b + 1) mod capacity b = j"
    using slot below by (simp add: mod_word_less)
  have go': "\<not> ((read_idx b + 1) mod capacity b = write_idx b
             \<and> (should_always_drop_reads b \<or> dropped_reads b < MAX_ALLOWED_READ_DROPS))"
    unfolding j by (rule go)
  have wf1: "well_formed ?b1" using wf by (simp add: well_formed_def)
  have jn: "unat j < unat (capacity ?b1)" using below by (simp add: word_less_nat_alt)
  have same: "slot_update ?b1 (unat j) (slot_bytes b (unat j)) = ?b1"
    using slot_update_same_bytes [OF wf1 jn] by simp
  have "pop ?b1 = ?b1\<lparr>active_items_count := active_items_count ?b1 - 1\<rparr>"
    using ne small by (intro pop_exact_record) simp_all
  then have p: "pop ?b1 = b\<lparr>active_items_count := active_items_count b - 1,
                            read_idx := j, dropped_reads := 0\<rparr>"
    by simp
  show ?thesis
    using perform_read_completes [OF wf go', of memcpy_out target] ne
    by (simp add: read_rb_def empty_rb_def j Let_def memcpy_out_def same p)
qed

lemma reads_drain:
  assumes "well_formed b"
    and "read_idx b + 1 = of_nat r"
    and "r + m \<le> unat (write_idx b)"
    and "unat (write_idx b) < unat (capacity b)"
    and "m \<le> unat (active_items_count b)"
    and "unat (active_items_count b) \<le> 2 ^ 31"
  shows "run (replicate m (Read memcpy_out)) (target, b) =
           Returns (target @ map (slot_bytes b) [r..<r + m],
                    b\<lparr>active_items_count := active_items_count b - of_nat m,
                      read_idx := of_nat (r + m) - 1,
                      dropped_reads := (if m = 0 then dropped_reads b else 0)\<rparr>)"
  using assms
proof (induction m arbitrary: b r target)
  case 0
  have "read_idx b = of_nat r - 1" using "0.prems"(2) by (simp flip: "0.prems"(2))
  then have "b\<lparr>read_idx := of_nat r - 1\<rparr> = b" by simp
  then show ?case by simp
next
  case (Suc m)
  let ?j = "of_nat r :: size_t"
  let ?b1 = "b\<lparr>active_items_count := active_items_count b - 1,
               read_idx := ?j, dropped_reads := 0\<rparr>"
  have r_lt: "r < unat (write_idx b)" using Suc.prems(3) by simp
  moreover have "unat (write_idx b) < 2 ^ 64" using unsigned_less [of "write_idx b"] by simp
  ultimately have ur: "unat ?j = r" by (simp add: unat_of_nat)
  have below: "?j < capacity b" using ur r_lt Suc.prems(4) by (simp add: word_less_nat_alt)
  have free: "\<not> (?j = write_idx b
               \<and> (should_always_drop_reads b \<or> dropped_reads b < MAX_ALLOWED_READ_DROPS))"
    using ur r_lt by auto
  have ne: "active_items_count b \<noteq> 0" using Suc.prems(5) by auto
  have step: "read_rb memcpy_out (target, b) = Returns (target @ [slot_bytes b r], ?b1)"
    using read_step [OF Suc.prems(1) ne Suc.prems(6) Suc.prems(2) below free] ur by simp
  have wf1: "well_formed ?b1" using Suc.prems(1) by (simp add: well_formed_def)
  have occ1: "unat (active_items_count ?b1) = unat (active_items_count b) - 1"
    using ne by (simp add: unat_minus_one)
  have p2: "read_idx ?b1 + 1 = of_nat (Suc r)" by simp
  have p3: "Suc r + m \<le> unat (write_idx ?b1)" using Suc.prems(3) by simp
  have p4: "unat (write_idx ?b1) < unat (capacity ?b1)" using Suc.prems(4) by simp
  have p5: "m \<le> unat (active_items_count ?b1)" using Suc.prems(5) occ1 by simp
  have p6: "unat (active_items_count ?b1) \<le> 2 ^ 31" using Suc.prems(6) occ1 by simp
  have rest: "run (replicate m (Read memcpy_out)) (target @ [slot_bytes b r], ?b1) =
           Returns ((target @ [slot_bytes b r]) @ map (slot_bytes ?b1) [Suc r..<Suc r + m],
                    ?b1\<lparr>active_items_count := active_items_count ?b1 - of_nat m,
                      read_idx := of_nat (Suc r + m) - 1,
                      dropped_reads := (if m = 0 then dropped_reads ?b1 else 0)\<rparr>)"
    by (rule Suc.IH [OF wf1 p2 p3 p4 p5 p6])
  have lst: "[r..<Suc (r + m)] = r # [Suc r..<Suc (r + m)]"
    by (simp add: upt_conv_Cons)
  have sb: "map (slot_bytes ?b1) xs = map (slot_bytes b) xs" for xs by simp
  show ?case
    using step rest by (simp add: lst sb del: upt_Suc)
qed

subsection \<open>Reads that run into the write cursor\<close>

lemma reads_suppressed:
  assumes "capacity b \<noteq> 0"
    and "(read_idx b + 1) mod capacity b = write_idx b"
    and "active_items_count b \<noteq> 0"
    and "unat (dropped_reads b) + m \<le> 393210"
  shows "run (replicate m (Read cb)) (c, b)
           = Returns (c, b\<lparr>dropped_reads := dropped_reads b + of_nat m\<rparr>)"
  using assms
proof (induction m arbitrary: b)
  case 0
  then show ?case by simp
next
  case (Suc m)
  let ?b1 = "b\<lparr>dropped_reads := dropped_reads b + 1\<rparr>"
  have lt: "unat (dropped_reads b) < 393210" using Suc.prems(4) by simp
  then have low: "dropped_reads b < MAX_ALLOWED_READ_DROPS"
    by (simp add: MAX_ALLOWED_READ_DROPS_value word_less_nat_alt)
  have hit: "incremented_with_capacity b (read_idx b) = Returns (write_idx b)"
    using Suc.prems(1,2) by (simp add: incremented_with_capacity_def)
  have step: "read_rb cb (c, b) = Returns (c, ?b1)"
    using perform_read_suppressed [OF hit, of cb c] low Suc.prems(3)
    by (simp add: read_rb_def empty_rb_def)
  have "unat (dropped_reads b) + unat (1 :: uint32_t) < 2 ^ LENGTH(32)" using lt by simp
  then have "unat (dropped_reads b + 1) = unat (dropped_reads b) + 1"
    by (simp only: unat_add_lem [THEN iffD1] unat_1)
  then have p4: "unat (dropped_reads ?b1) + m \<le> 393210" using Suc.prems(4) by simp
  have "run (replicate m (Read cb)) (c, ?b1)
          = Returns (c, ?b1\<lparr>dropped_reads := dropped_reads ?b1 + of_nat m\<rparr>)"
    using Suc.prems(1,2,3) p4 by (intro Suc.IH) simp_all
  then show ?case using step by (simp add: add.assoc)
qed

subsection \<open>A new buffer\<close>

lemma initial_buffer_well_formed:
  assumes "isz \<noteq> 0" and "cap \<noteq> 0" and "unat isz * unat cap \<le> vector_max_size"
  shows "well_formed (initial_buffer isz cap)"
    and "ThreadSafeRingBuffer isz cap = Returns (initial_buffer isz cap)"
proof -
  have "unat isz * unat cap < 2 ^ LENGTH(64)"
    using assms(3) by (simp add: vector_max_size_def)
  then have m: "unat (isz * cap) = unat isz * unat cap"
    by (simp only: unat_mult_lem [THEN iffD1])
  show "well_formed (initial_buffer isz cap)"
    using assms m by (simp add: well_formed_def initial_buffer_def)
  show "ThreadSafeRingBuffer isz cap = Returns (initial_buffer isz cap)"
    using assms(3) m by (simp add: ThreadSafeRingBuffer_def)
qed

lemma initial_buffer_fields [simp]:
  "item_size (initial_buffer isz cap) = isz"
  "max_items_count (initial_buffer isz cap) = cap"
  "capacity (initial_buffer isz cap) = cap"
  "active_items_count (initial_buffer isz cap) = 0"
  "write_idx (initial_buffer isz cap) = SIZE_MAX"
  "read_idx (initial_buffer isz cap) = SIZE_MAX"
  "dropped_reads (initial_buffer isz cap) = 0"
  "should_always_drop_reads (initial_buffer isz cap) = True"
  by (simp_all add: initial_buffer_def capacity_def)

text \<open>
  \<open>n\<close> blocking writes on a new buffer with room for them: the occupancy is \<open>n\<close>, the
  write cursor is on slot \<open>n - 1\<close>, slot \<open>i\<close> holds item \<open>i\<close>.
\<close>

lemma writes_on_new_buffer:
  assumes "isz \<noteq> 0" and "unat isz * unat cap \<le> vector_max_size"
    and "1 \<le> length items" and "length items \<le> unat cap"
    and "\<forall>item\<in>set items. length item = unat isz"
  shows "\<exists>b'. run (map (\<lambda>item. Write (memcpy_in item)) items) (c, initial_buffer isz cap)
                 = Returns (c, b')
          \<and> well_formed b' \<and> item_size b' = isz \<and> capacity b' = cap
          \<and> active_items_count b' = of_nat (length items)
          \<and> write_idx b' = of_nat (length items - 1)
          \<and> read_idx b' = SIZE_MAX \<and> dropped_reads b' = 0
          \<and> \<not> should_always_drop_reads b'
          \<and> (\<forall>i<length items. slot_bytes b' i = items ! i)"
proof -
  let ?b = "initial_buffer isz cap"
  have cap: "cap \<noteq> 0" using assms(3,4) by auto
  have wf: "well_formed ?b" using assms(1) cap assms(2) by (rule initial_buffer_well_formed)
  have p2: "write_idx ?b + 1 = active_items_count ?b" by (simp add: SIZE_MAX_minus_one)
  have p3: "unat (active_items_count ?b) + length items \<le> unat (capacity ?b)"
    using assms(4) by simp
  have p4: "\<forall>item\<in>set items. length item = unat (item_size ?b)" using assms(5) by simp
  from writes_fill [OF wf p2 p3 p4, of c] obtain b' where
    r: "run (map (\<lambda>item. Write (memcpy_in item)) items) (c, ?b) = Returns (c, b')"
    and wf': "well_formed b'"
    and f: "item_size b' = item_size ?b" "max_items_count b' = max_items_count ?b"
    and occ: "unat (active_items_count b') = unat (active_items_count ?b) + length items"
    and w: "write_idx b' + 1 = active_items_count b'"
    and rd: "read_idx b' = read_idx ?b" "dropped_reads b' = dropped_reads ?b"
    and flag: "items \<noteq> [] \<longrightarrow> \<not> should_always_drop_reads b'"
    and new: "\<forall>i<length items. slot_bytes b' (unat (active_items_count ?b) + i) = items ! i"
    by blast
  have "active_items_count b' = of_nat (unat (active_items_count b'))" by simp
  then have occ_w: "active_items_count b' = of_nat (length items)" using occ by simp
  have "write_idx b' = active_items_count b' - 1" using w by (simp flip: w)
  also have "\<dots> = of_nat (length items - 1)" using assms(3) by (simp add: occ_w of_nat_diff)
  finally have widx: "write_idx b' = of_nat (length items - 1)" .
  have "items \<noteq> []" using assms(3) by auto
  then show ?thesis
    using r wf' f occ_w widx rd flag new by (auto simp: capacity_def)
qed

section \<open>First in, first out, but for the last item\<close>

text \<open>
  C2 as stated fails in its last part: the final item does not stay unread until the
  write cursor is reset. After blocking writes the drop flag is clear, so the
  suppression of a colliding read ends once \<open>MAX_ALLOWED_READ_DROPS\<close> reads in a row
  have been dropped. With item size 1 and capacity 1: one blocking write of the byte 7,
  then 393211 blocking reads; the first 393210 are suppressed, the last one delivers the
  item, and the write cursor is still on slot 0.
\<close>

theorem last_item_read_without_reset:
  "run (Write (memcpy_in [7]) # replicate 393210 (Read memcpy_out) @ [Read memcpy_out])
       ([], initial_buffer 1 1)
   = Returns ([[7]], \<lparr> buffer = [7], item_size = 1, max_items_count = 1,
                       active_items_count = 0, write_idx = 0, read_idx = 0,
                       dropped_reads = 0, should_always_drop_reads = False \<rparr>)"
proof -
  let ?b1 = "\<lparr> buffer = [7], item_size = 1, max_items_count = 1,
               active_items_count = 1, write_idx = 0, read_idx = SIZE_MAX,
               dropped_reads = 0, should_always_drop_reads = False \<rparr>"
  have w: "write_rb (memcpy_in [7]) ([] :: bytes list, initial_buffer 1 1) = Returns ([], ?b1)"
    by (simp add: call_defs)
  have "run (replicate 393210 (Read memcpy_out)) ([], ?b1)
          = Returns ([], ?b1\<lparr>dropped_reads := dropped_reads ?b1 + of_nat 393210\<rparr>)"
    by (rule reads_suppressed) (simp_all add: capacity_def SIZE_MAX_def)
  then have s: "run (replicate 393210 (Read memcpy_out)) ([], ?b1)
          = Returns ([], ?b1\<lparr>dropped_reads := 393210\<rparr>)"
    by simp
  have r: "read_rb memcpy_out ([], ?b1\<lparr>dropped_reads := 393210\<rparr>)
          = Returns ([[7]], \<lparr> buffer = [7], item_size = 1, max_items_count = 1,
                       active_items_count = 0, write_idx = 0, read_idx = 0,
                       dropped_reads = 0, should_always_drop_reads = False \<rparr>)"
    by (simp add: call_defs)
  show ?thesis
    using w s r by (simp add: run_append)
qed

text \<open>
  C2 as amended. Take item size and capacity of at least 1 whose product fits the storage
  vector, and \<open>N\<close> items of \<open>item_size\<close> bytes each with
  \<open>1 \<le> N \<le> capacity\<close> and \<open>N \<le> 2 ^ 31\<close>. On a newly constructed buffer, \<open>N\<close>
  blocking writes followed by \<open>N\<close> blocking reads, one call after the other, deliver
  through the read callback exactly the first \<open>N - 1\<close> items in write order; the
  \<open>N\<close>-th read is suppressed by the collision rule and is the first dropped read. The
  last item then stays unread over further reads until either the write cursor is reset
  to the sentinel, after which the next read delivers it and the buffer is empty, or
  \<open>MAX_ALLOWED_READ_DROPS\<close> reads in a row have been suppressed, after which the next
  read delivers it with the write cursor where it was. (The threshold is 393210; the
  \<open>N\<close>-th read is the first suppressed one, 393209 more follow.)
\<close>

theorem writes_then_reads_deliver_all_but_last:
  assumes "isz \<noteq> 0" and "unat isz * unat cap \<le> vector_max_size"
    and "1 \<le> length items" and "length items \<le> unat cap" and "length items \<le> 2 ^ 31"
    and "\<forall>item\<in>set items. length item = unat isz"
  shows "\<exists>b1 b2 b3.
           ThreadSafeRingBuffer isz cap = Returns (initial_buffer isz cap)
         \<and> run (map (\<lambda>item. Write (memcpy_in item)) items
                 @ replicate (length items - 1) (Read memcpy_out))
               ([], initial_buffer isz cap)
             = Returns (butlast items, b1)
         \<and> dropped_reads b1 = 0
         \<and> read_rb memcpy_out (butlast items, b1)
             = Returns (butlast items, b1\<lparr>dropped_reads := 1\<rparr>)
         \<and> run (map (\<lambda>item. Write (memcpy_in item)) items
                 @ replicate (length items) (Read memcpy_out))
               ([], initial_buffer isz cap)
             = Returns (butlast items, b1\<lparr>dropped_reads := 1\<rparr>)
         \<and> size_rb b1 = 1 \<and> write_idx b1 \<noteq> SIZE_MAX
         \<and> run [Reset_write_idx, Read memcpy_out] (butlast items, b1\<lparr>dropped_reads := 1\<rparr>)
             = Returns (items, b2)
         \<and> empty_rb b2
         \<and> run (replicate 393209 (Read memcpy_out)) (butlast items, b1\<lparr>dropped_reads := 1\<rparr>)
             = Returns (butlast items, b1\<lparr>dropped_reads := MAX_ALLOWED_READ_DROPS\<rparr>)
         \<and> read_rb memcpy_out (butlast items, b1\<lparr>dropped_reads := MAX_ALLOWED_READ_DROPS\<rparr>)
             = Returns (items, b3)
         \<and> write_idx b3 = write_idx b1 \<and> empty_rb b3"
proof -
  let ?N = "length items"
  let ?writes = "map (\<lambda>item. Write (memcpy_in item)) items :: bytes list operation list"
  let ?read = "Read memcpy_out :: bytes list operation"
  define last_slot :: size_t where "last_slot = of_nat (?N - 1)"
  have cap: "cap \<noteq> 0" using assms(3,4) by auto
  have ctor: "ThreadSafeRingBuffer isz cap = Returns (initial_buffer isz cap)"
    using assms(1) cap assms(2) by (rule initial_buffer_well_formed)
  from writes_on_new_buffer [OF assms(1,2,3,4,6), of "[] :: bytes list"] obtain bw where
    w: "run ?writes ([], initial_buffer isz cap) = Returns ([], bw)"
    and wf: "well_formed bw" and isz: "item_size bw = isz" and capw: "capacity bw = cap"
    and occ: "active_items_count bw = of_nat ?N"
    and widx: "write_idx bw = last_slot"
    and ridx: "read_idx bw = SIZE_MAX" and dr: "dropped_reads bw = 0"
    and flag: "\<not> should_always_drop_reads bw"
    and content: "\<forall>i<?N. slot_bytes bw i = items ! i"
    unfolding last_slot_def by blast
  have N64: "?N < 2 ^ 64"
  proof -
    have "unat cap < 2 ^ 64" using unsigned_less [of cap] by simp
    with assms(4) show ?thesis by simp
  qed
  have uocc: "unat (active_items_count bw) = ?N" using N64 by (simp add: occ unat_of_nat)
  have ulast: "unat last_slot = ?N - 1" using N64 by (simp add: last_slot_def unat_of_nat)
  have last_lt: "last_slot < cap"
    using ulast assms(3,4) by (simp add: word_less_nat_alt)
  have last_ne: "last_slot \<noteq> SIZE_MAX" using last_lt by (auto simp: SIZE_MAX_minus_one)
  \<comment> \<open>the first \<open>N - 1\<close> reads\<close>
  define b1 where
    "b1 = bw\<lparr>active_items_count := active_items_count bw - of_nat (?N - 1),
              read_idx := of_nat (0 + (?N - 1)) - 1,
              dropped_reads := (if ?N - 1 = 0 then dropped_reads bw else 0)\<rparr>"
  have drain: "run (replicate (?N - 1) ?read) ([], bw)
                 = Returns ([] @ map (slot_bytes bw) [0..<0 + (?N - 1)], b1)"
    unfolding b1_def
  proof (rule reads_drain [OF wf])
    show "read_idx bw + 1 = of_nat 0" by (simp add: ridx SIZE_MAX_minus_one)
    show "0 + (?N - 1) \<le> unat (write_idx bw)" using ulast by (simp add: widx)
    show "unat (write_idx bw) < unat (capacity bw)"
      using assms(3,4) ulast by (simp add: widx capw)
    show "?N - 1 \<le> unat (active_items_count bw)" by (simp add: uocc)
    show "unat (active_items_count bw) \<le> 2 ^ 31" using assms(5) by (simp add: uocc)
  qed
  have delivered: "map (slot_bytes bw) [0..<?N - 1] = butlast items"
  proof (rule nth_equalityI)
    show "length (map (slot_bytes bw) [0..<?N - 1]) = length (butlast items)" by simp
  next
    fix i assume "i < length (map (slot_bytes bw) [0..<?N - 1])"
    then have i: "i < ?N - 1" by simp
    then have "slot_bytes bw i = items ! i" using content by simp
    then show "map (slot_bytes bw) [0..<?N - 1] ! i = butlast items ! i"
      using i by (simp add: nth_butlast)
  qed
  have drain': "run (replicate (?N - 1) ?read) ([], bw) = Returns (butlast items, b1)"
    using drain delivered by simp
  have occ1: "active_items_count b1 = 1"
    using assms(3) by (simp add: b1_def occ of_nat_diff)
  have dr1: "dropped_reads b1 = 0" by (simp add: b1_def dr)
  have ridx1: "read_idx b1 + 1 = last_slot" by (simp add: b1_def last_slot_def)
  have widx1: "write_idx b1 = last_slot" by (simp add: b1_def widx)
  have wf1: "well_formed b1" using wf by (simp add: b1_def well_formed_def)
  have cap1: "capacity b1 = cap" by (simp add: b1_def capw)
  have flag1: "\<not> should_always_drop_reads b1" using flag by (simp add: b1_def)
  have slots1: "slot_bytes b1 i = slot_bytes bw i" for i by (simp add: b1_def)
  have r1: "run (?writes @ replicate (?N - 1) ?read) ([], initial_buffer isz cap)
              = Returns (butlast items, b1)"
    using w drain' by (simp add: run_append)
  \<comment> \<open>the \<open>N\<close>-th read\<close>
  have next1: "(read_idx b1 + 1) mod capacity b1 = write_idx b1"
    using last_lt by (simp add: ridx1 widx1 cap1 mod_word_less)
  have hit: "incremented_with_capacity b1 (read_idx b1) = Returns (write_idx b1)"
    using cap next1 by (simp add: incremented_with_capacity_def cap1)
  have low: "dropped_reads b1 < MAX_ALLOWED_READ_DROPS"
    by (simp add: dr1 MAX_ALLOWED_READ_DROPS_value)
  have nth_read: "read_rb memcpy_out (butlast items, b1)
                    = Returns (butlast items, b1\<lparr>dropped_reads := 1\<rparr>)"
    using perform_read_suppressed [OF hit, of memcpy_out "butlast items"] low occ1 dr1
    by (simp add: read_rb_def empty_rb_def)
  have rep: "replicate ?N ?read = replicate (?N - 1) ?read @ [?read]"
    using assms(3) by (cases ?N) (simp_all add: replicate_append_same)
  have "run ((?writes @ replicate (?N - 1) ?read) @ [?read]) ([], initial_buffer isz cap)
              = Returns (butlast items, b1\<lparr>dropped_reads := 1\<rparr>)"
    using r1 nth_read by (simp only: run_append [of _ "[?read]"]) simp
  then have rN: "run (?writes @ replicate ?N ?read) ([], initial_buffer isz cap)
              = Returns (butlast items, b1\<lparr>dropped_reads := 1\<rparr>)"
    by (simp only: rep append_assoc)
  \<comment> \<open>the last item\<close>
  have nonempty: "items \<noteq> []" using assms(3) by auto
  then have whole: "butlast items @ [last items] = items" by simp
  have last_item: "slot_bytes bw (?N - 1) = last items"
    using nonempty content by (simp add: last_conv_nth)
  \<comment> \<open>after a reset of the write cursor\<close>
  define b1r where "b1r = reset_write_idx (b1\<lparr>dropped_reads := 1\<rparr>)"
  define b2 where
    "b2 = b1r\<lparr>active_items_count := active_items_count b1r - 1,
               read_idx := last_slot, dropped_reads := 0\<rparr>"
  have "read_rb memcpy_out (butlast items, b1r)
          = Returns (butlast items @ [slot_bytes b1r (unat last_slot)], b2)"
    unfolding b2_def
  proof (rule read_step)
    show "well_formed b1r" using wf1 by (simp add: b1r_def well_formed_def reset_write_idx_def)
    show "active_items_count b1r \<noteq> 0" using occ1 by (simp add: b1r_def reset_write_idx_def)
    show "unat (active_items_count b1r) \<le> 2 ^ 31"
      using occ1 by (simp add: b1r_def reset_write_idx_def)
    show "read_idx b1r + 1 = last_slot" using ridx1 by (simp add: b1r_def reset_write_idx_def)
    show "last_slot < capacity b1r"
      using last_lt cap1 by (simp add: b1r_def reset_write_idx_def)
    show "\<not> (last_slot = write_idx b1r
               \<and> (should_always_drop_reads b1r \<or> dropped_reads b1r < MAX_ALLOWED_READ_DROPS))"
      using last_ne by (simp add: b1r_def reset_write_idx_def)
  qed
  moreover have "slot_bytes b1r (unat last_slot) = last items"
    using last_item slots1 ulast by (simp add: b1r_def reset_write_idx_def)
  ultimately have "read_rb memcpy_out (butlast items, b1r) = Returns (items, b2)"
    using whole by simp
  then have after_reset:
    "run [Reset_write_idx, ?read] (butlast items, b1\<lparr>dropped_reads := 1\<rparr>)
       = Returns (items, b2)"
    by (simp add: b1r_def)
  have empty2: "empty_rb b2"
    using occ1 by (simp add: b2_def b1r_def empty_rb_def reset_write_idx_def)
  \<comment> \<open>without a reset\<close>
  define b1d where "b1d = b1\<lparr>dropped_reads := 1\<rparr>"
  have "run (replicate 393209 ?read) (butlast items, b1d)
          = Returns (butlast items, b1d\<lparr>dropped_reads := dropped_reads b1d + of_nat 393209\<rparr>)"
  proof (rule reads_suppressed)
    show "capacity b1d \<noteq> 0" using cap cap1 by (simp add: b1d_def)
    show "(read_idx b1d + 1) mod capacity b1d = write_idx b1d"
      using next1 by (simp add: b1d_def)
    show "active_items_count b1d \<noteq> 0" using occ1 by (simp add: b1d_def)
    show "unat (dropped_reads b1d) + 393209 \<le> 393210" by (simp add: b1d_def)
  qed
  then have streak:
    "run (replicate 393209 ?read) (butlast items, b1\<lparr>dropped_reads := 1\<rparr>)
       = Returns (butlast items, b1\<lparr>dropped_reads := MAX_ALLOWED_READ_DROPS\<rparr>)"
    by (simp add: b1d_def MAX_ALLOWED_READ_DROPS_value)
  define b1m where "b1m = b1\<lparr>dropped_reads := MAX_ALLOWED_READ_DROPS\<rparr>"
  define b3 where
    "b3 = b1m\<lparr>active_items_count := active_items_count b1m - 1,
               read_idx := last_slot, dropped_reads := 0\<rparr>"
  have "read_rb memcpy_out (butlast items, b1m)
          = Returns (butlast items @ [slot_bytes b1m (unat last_slot)], b3)"
    unfolding b3_def
  proof (rule read_step)
    show "well_formed b1m" using wf1 by (simp add: b1m_def well_formed_def)
    show "active_items_count b1m \<noteq> 0" using occ1 by (simp add: b1m_def)
    show "unat (active_items_count b1m) \<le> 2 ^ 31" using occ1 by (simp add: b1m_def)
    show "read_idx b1m + 1 = last_slot" using ridx1 by (simp add: b1m_def)
    show "last_slot < capacity b1m" using last_lt cap1 by (simp add: b1m_def)
    show "\<not> (last_slot = write_idx b1m
               \<and> (should_always_drop_reads b1m \<or> dropped_reads b1m < MAX_ALLOWED_READ_DROPS))"
      using flag1 by (simp add: b1m_def)
  qed
  moreover have "slot_bytes b1m (unat last_slot) = last items"
    using last_item slots1 ulast by (simp add: b1m_def)
  ultimately have forced:
    "read_rb memcpy_out (butlast items, b1\<lparr>dropped_reads := MAX_ALLOWED_READ_DROPS\<rparr>)
       = Returns (items, b3)"
    using whole by (simp add: b1m_def)
  have empty3: "empty_rb b3" using occ1 by (simp add: b3_def b1m_def empty_rb_def)
  have w3: "write_idx b3 = write_idx b1" by (simp add: b3_def b1m_def)
  have size1: "size_rb b1 = 1" using occ1 by (simp add: size_rb_def)
  have not_sentinel: "write_idx b1 \<noteq> SIZE_MAX" using last_ne by (simp add: widx1)
  show ?thesis
    using ctor r1 dr1 nth_read rN size1 not_sentinel after_reset empty2 streak forced w3 empty3
    by blast
qed

theorem writes_then_reads_deliver_all_but_last_witness:
  "\<exists>b1 b2 b3.
       ThreadSafeRingBuffer 4 3 = Returns (initial_buffer 4 3)
     \<and> run (map (\<lambda>item. Write (memcpy_in item))
                [[65, 65, 65, 65], [66, 66, 66, 66], [67, 67, 67, 67]]
             @ replicate 3 (Read memcpy_out))
           ([], initial_buffer 4 3)
         = Returns ([[65, 65, 65, 65], [66, 66, 66, 66]], b1\<lparr>dropped_reads := 1\<rparr>)
     \<and> dropped_reads b1 = 0 \<and> size_rb b1 = 1
     \<and> run [Reset_write_idx, Read memcpy_out]
           ([[65, 65, 65, 65], [66, 66, 66, 66]], b1\<lparr>dropped_reads := 1\<rparr>)
         = Returns ([[65, 65, 65, 65], [66, 66, 66, 66], [67, 67, 67, 67]], b2)
     \<and> empty_rb b2
     \<and> read_rb memcpy_out
           ([[65, 65, 65, 65], [66, 66, 66, 66]], b1\<lparr>dropped_reads := MAX_ALLOWED_READ_DROPS\<rparr>)
         = Returns ([[65, 65, 65, 65], [66, 66, 66, 66], [67, 67, 67, 67]], b3)
     \<and> write_idx b3 = write_idx b1 \<and> empty_rb b3"
proof -
  let ?items = "[[65, 65, 65, 65], [66, 66, 66, 66], [67, 67, 67, 67]] :: bytes list"
  have h1: "(4 :: size_t) \<noteq> 0" by simp
  have h2: "unat (4 :: size_t) * unat (3 :: size_t) \<le> vector_max_size"
    by (simp add: vector_max_size_def)
  have h3: "1 \<le> length ?items" by simp
  have h4: "length ?items \<le> unat (3 :: size_t)" by simp
  have h5: "length ?items \<le> 2 ^ 31" by simp
  have h6: "\<forall>item\<in>set ?items. length item = unat (4 :: size_t)" by simp
  from writes_then_reads_deliver_all_but_last [OF h1 h2 h3 h4 h5 h6]
  obtain b1 b2 b3 where
    "ThreadSafeRingBuffer 4 3 = Returns (initial_buffer 4 3)"
    "run (map (\<lambda>item. Write (memcpy_in item)) ?items @ replicate (length ?items) (Read memcpy_out))
       ([], initial_buffer 4 3) = Returns (butlast ?items, b1\<lparr>dropped_reads := 1\<rparr>)"
    "dropped_reads b1 = 0" "size_rb b1 = 1"
    "run [Reset_write_idx, Read memcpy_out] (butlast ?items, b1\<lparr>dropped_reads := 1\<rparr>)
       = Returns (?items, b2)"
    "empty_rb b2"
    "read_rb memcpy_out (butlast ?items, b1\<lparr>dropped_reads := MAX_ALLOWED_READ_DROPS\<rparr>)
       = Returns (?items, b3)"
    "write_idx b3 = write_idx b1" "empty_rb b3"
    by blast
  then have "ThreadSafeRingBuffer 4 3 = Returns (initial_buffer 4 3)
     \<and> run (map (\<lambda>item. Write (memcpy_in item)) ?items @ replicate 3 (Read memcpy_out))
           ([], initial_buffer 4 3)
         = Returns ([[65, 65, 65, 65], [66, 66, 66, 66]], b1\<lparr>dropped_reads := 1\<rparr>)
     \<and> dropped_reads b1 = 0 \<and> size_rb b1 = 1
     \<and> run [Reset_write_idx, Read memcpy_out]
           ([[65, 65, 65, 65], [66, 66, 66, 66]], b1\<lparr>dropped_reads := 1\<rparr>)
         = Returns (?items, b2)
     \<and> empty_rb b2
     \<and> read_rb memcpy_out
           ([[65, 65, 65, 65], [66, 66, 66, 66]], b1\<lparr>dropped_reads := MAX_ALLOWED_READ_DROPS\<rparr>)
         = Returns (?items, b3)
     \<and> write_idx b3 = write_idx b1 \<and> empty_rb b3"
    by (simp add: numeral_3_eq_3)
  then show ?thesis by blast
qed

section \<open>The occupancy counter over a run\<close>

text \<open>
  C5. The claim holds for \<open>push\<close> (\<open>perform_write_Returns\<close>: a completed write leaves
  \<open>min (occupancy + 1) capacity\<close>), for the bounds (\<open>size_within_capacity\<close>: after every
  run from construction \<open>0 \<le> size() \<le> capacity()\<close>) and for \<open>pop\<close> as long as the
  occupancy is at most \<open>2 ^ 31\<close> (\<open>pop_exact\<close>, \<open>pop_zero\<close>). It fails for \<open>pop\<close>
  beyond that: \<open>pop\<close> casts \<open>occupancy - 1\<close> to \<^verbatim>\<open>int\<close> before it takes the maximum
  with 0, and the cast keeps only the low 32 bits, read as a signed number. On a new
  buffer of 2147483649 one-byte items, as many blocking writes return and leave
  \<open>size()\<close> at 2147483649; the first blocking read then hands over the first item and
  takes \<open>size()\<close> to 0, not to 2147483648; and a second blocking read finds the buffer
  empty and waits for ever.
\<close>

theorem pop_truncates_occupancy:
  "map_outcome (\<lambda>s. size_rb (snd s))
     (run (map (\<lambda>item. Write (memcpy_in item)) (replicate 2147483649 [1]))
        ([] :: bytes list, initial_buffer 1 2147483649))
   = Returns 2147483649
   \<and> map_outcome (\<lambda>s. (fst s, size_rb (snd s)))
     (run (map (\<lambda>item. Write (memcpy_in item)) (replicate 2147483649 [1])
           @ [Read memcpy_out])
        ([], initial_buffer 1 2147483649))
   = Returns ([[1]], 0)
   \<and> run (map (\<lambda>item. Write (memcpy_in item)) (replicate 2147483649 [1])
           @ [Read memcpy_out, Read memcpy_out])
        ([], initial_buffer 1 2147483649)
   = Blocks"
proof -
  let ?items = "replicate 2147483649 [1] :: bytes list"
  let ?writes = "map (\<lambda>item. Write (memcpy_in item)) ?items :: bytes list operation list"
  let ?read = "Read memcpy_out :: bytes list operation"
  have h1: "(1 :: size_t) \<noteq> 0" by simp
  have h2: "unat (1 :: size_t) * unat (2147483649 :: size_t) \<le> vector_max_size"
    by (simp add: vector_max_size_def)
  have h3: "1 \<le> length ?items" by simp
  have h4: "length ?items \<le> unat (2147483649 :: size_t)" by simp
  have h5: "\<forall>item\<in>set ?items. length item = unat (1 :: size_t)" by simp
  from writes_on_new_buffer [OF h1 h2 h3 h4 h5, of "[] :: bytes list"] obtain bw where
    w: "run ?writes ([], initial_buffer 1 2147483649) = Returns ([], bw)"
    and wf: "well_formed bw" and capw: "capacity bw = 2147483649"
    and occ: "active_items_count bw = of_nat (length ?items)"
    and widx: "write_idx bw = of_nat (length ?items - 1)"
    and ridx: "read_idx bw = SIZE_MAX"
    and content: "\<forall>i<length ?items. slot_bytes bw i = ?items ! i"
    by blast
  have occ': "active_items_count bw = 2147483649" using occ by simp
  have widx': "write_idx bw = 2147483648" using widx by simp
  have first: "slot_bytes bw 0 = [1]" using content by simp
  have go: "\<not> ((read_idx bw + 1) mod capacity bw = write_idx bw
             \<and> (should_always_drop_reads bw \<or> dropped_reads bw < MAX_ALLOWED_READ_DROPS))"
    by (simp add: ridx widx' SIZE_MAX_minus_one)
  have ne: "\<not> empty_rb bw" by (simp add: empty_rb_def occ')
  define b1 where
    "b1 = pop (slot_update (bw\<lparr>read_idx := (read_idx bw + 1) mod capacity bw,
                               dropped_reads := 0\<rparr>)
                 (unat ((read_idx bw + 1) mod capacity bw))
                 (snd (memcpy_out [] (slot_bytes bw (unat ((read_idx bw + 1) mod capacity bw))))))"
  have j: "(read_idx bw + 1) mod capacity bw = 0" by (simp add: ridx SIZE_MAX_minus_one)
  have rd: "read_rb memcpy_out ([], bw) = Returns ([[1]], b1)"
    using perform_read_completes [OF wf go, of memcpy_out "[]"] ne first
    by (simp add: read_rb_def Let_def b1_def j memcpy_out_def)
  have "active_items_count b1 = active_items_count (pop bw)"
    by (simp add: b1_def pop_def)
  also have "\<dots> = 0"
    by (simp add: pop_def occ' static_cast_int_def)
  finally have zero: "active_items_count b1 = 0" .
  have a: "map_outcome (\<lambda>s. size_rb (snd s)) (run ?writes ([], initial_buffer 1 2147483649))
             = Returns 2147483649"
    by (simp only: w) (simp add: size_rb_def occ')
  have "run (?writes @ [?read]) ([], initial_buffer 1 2147483649) = run [?read] ([], bw)"
    by (simp only: run_append w outcome.case)
  also have "\<dots> = Returns ([[1]], b1)" by (simp add: rd)
  finally have b: "map_outcome (\<lambda>s. (fst s, size_rb (snd s)))
             (run (?writes @ [?read]) ([], initial_buffer 1 2147483649))
           = Returns ([[1]], 0)"
    using zero by (simp add: size_rb_def)
  have "run (?writes @ [?read, ?read]) ([], initial_buffer 1 2147483649)
          = run [?read, ?read] ([], bw)"
    by (simp only: run_append w outcome.case)
  also have "\<dots> = Blocks"
  proof -
    have "read_rb memcpy_out ([[1]], b1) = Blocks"
      by (simp add: read_rb_def empty_rb_def zero)
    then show ?thesis by (simp add: rd)
  qed
  finally have c: "run (?writes @ [?read, ?read]) ([], initial_buffer 1 2147483649) = Blocks" .
  show ?thesis using a b c by (intro conjI)
qed

text \<open>
  C9. The collision part of the claim holds (\<open>read_with_write_idx_at_sentinel\<close>): with
  the write cursor at \<open>SIZE_MAX\<close> the test of \<open>perform_read\<close> never succeeds, the reader
  callback is invoked and the read cursor advances. The last part, that every such read
  decrements the occupancy, fails through the cast in \<open>pop\<close>. On a new buffer of
  2147483649 one-byte items, after as many blocking writes and \<open>reset_write_idx\<close>, the
  caller has received nothing, both cursors are at \<open>SIZE_MAX\<close> and \<open>size()\<close> is 2147483649;
  one blocking read then hands over the first item, moves the read cursor to slot 0, and
  leaves \<open>size()\<close> at 0, not at 2147483648.
\<close>

theorem read_after_reset_loses_occupancy:
  "map_outcome (\<lambda>s. (fst s, read_idx (snd s), write_idx (snd s), size_rb (snd s)))
     (run (map (\<lambda>item. Write (memcpy_in item)) (replicate 2147483649 [1])
           @ [Reset_write_idx])
        ([] :: bytes list, initial_buffer 1 2147483649))
   = Returns ([], SIZE_MAX, SIZE_MAX, 2147483649)
   \<and> map_outcome (\<lambda>s. (fst s, read_idx (snd s), write_idx (snd s), size_rb (snd s)))
     (run (map (\<lambda>item. Write (memcpy_in item)) (replicate 2147483649 [1])
           @ [Reset_write_idx, Read memcpy_out])
        ([], initial_buffer 1 2147483649))
   = Returns ([[1]], 0, SIZE_MAX, 0)"
proof -
  let ?items = "replicate 2147483649 [1] :: bytes list"
  let ?writes = "map (\<lambda>item. Write (memcpy_in item)) ?items :: bytes list operation list"
  let ?read = "Read memcpy_out :: bytes list operation"
  let ?view = "\<lambda>s :: bytes list \<times> ring_buffer.
                 (fst s, read_idx (snd s), write_idx (snd s), size_rb (snd s))"
  have h1: "(1 :: size_t) \<noteq> 0" by simp
  have h2: "unat (1 :: size_t) * unat (2147483649 :: size_t) \<le> vector_max_size"
    by (simp add: vector_max_size_def)
  have h3: "1 \<le> length ?items" by simp
  have h4: "length ?items \<le> unat (2147483649 :: size_t)" by simp
  have h5: "\<forall>item\<in>set ?items. length item = unat (1 :: size_t)" by simp
  from writes_on_new_buffer [OF h1 h2 h3 h4 h5, of "[] :: bytes list"] obtain bw where
    w: "run ?writes ([], initial_buffer 1 2147483649) = Returns ([], bw)"
    and wf: "well_formed bw" and capw: "capacity bw = 2147483649"
    and occ: "active_items_count bw = of_nat (length ?items)"
    and ridx: "read_idx bw = SIZE_MAX"
    and content: "\<forall>i<length ?items. slot_bytes bw i = ?items ! i"
    by blast
  define br where "br = reset_write_idx bw"
  have occ': "active_items_count br = 2147483649"
    using occ by (simp add: br_def reset_write_idx_def)
  have ridx': "read_idx br = SIZE_MAX" using ridx by (simp add: br_def reset_write_idx_def)
  have widx': "write_idx br = SIZE_MAX" by (simp add: br_def reset_write_idx_def)
  have wfr: "well_formed br" using wf by (simp add: br_def well_formed_def reset_write_idx_def)
  have "slot_bytes bw 0 = [1]" using content by simp
  then have first: "slot_bytes br 0 = [1]"
    by (simp add: br_def reset_write_idx_def slot_bytes_def)
  have j: "(read_idx br + 1) mod capacity br = 0" by (simp add: ridx' SIZE_MAX_minus_one)
  have go: "\<not> ((read_idx br + 1) mod capacity br = write_idx br
             \<and> (should_always_drop_reads br \<or> dropped_reads br < MAX_ALLOWED_READ_DROPS))"
    by (simp add: j widx' SIZE_MAX_def)
  have ne: "\<not> empty_rb br" by (simp add: empty_rb_def occ')
  define b1 where
    "b1 = pop (slot_update (br\<lparr>read_idx := (read_idx br + 1) mod capacity br,
                               dropped_reads := 0\<rparr>)
                 (unat ((read_idx br + 1) mod capacity br))
                 (snd (memcpy_out [] (slot_bytes br (unat ((read_idx br + 1) mod capacity br))))))"
  have rd: "read_rb memcpy_out ([], br) = Returns ([[1]], b1)"
    using perform_read_completes [OF wfr go, of memcpy_out "[]"] ne first
    by (simp add: read_rb_def Let_def b1_def j memcpy_out_def)
  have "active_items_count b1 = active_items_count (pop br)"
    by (simp add: b1_def pop_def)
  also have "\<dots> = 0"
    by (simp add: pop_def occ' static_cast_int_def)
  finally have zero: "active_items_count b1 = 0" .
  have r1: "read_idx b1 = 0" by (simp add: b1_def j)
  have w1: "write_idx b1 = SIZE_MAX" by (simp add: b1_def widx')
  have "run (?writes @ [Reset_write_idx]) ([], initial_buffer 1 2147483649)
          = run [Reset_write_idx] ([], bw)"
    by (simp only: run_append w outcome.case)
  also have "\<dots> = Returns ([], br)" by (simp add: br_def)
  finally have a: "map_outcome ?view
             (run (?writes @ [Reset_write_idx]) ([], initial_buffer 1 2147483649))
           = Returns ([], SIZE_MAX, SIZE_MAX, 2147483649)"
    by (simp add: size_rb_def occ' ridx' widx')
  have "run (?writes @ [Reset_write_idx, ?read]) ([], initial_buffer 1 2147483649)
          = run [Reset_write_idx, ?read] ([], bw)"
    by (simp only: run_append w outcome.case)
  also have "\<dots> = Returns ([[1]], b1)" using rd by (simp add: br_def)
  finally have b: "map_outcome ?view
             (run (?writes @ [Reset_write_idx, ?read]) ([], initial_buffer 1 2147483649))
           = Returns ([[1]], 0, SIZE_MAX, 0)"
    by (simp add: size_rb_def zero r1 w1)
  show ?thesis using a b by (intro conjI)
qed

section \<open>What \<open>empty()\<close> and \<open>full()\<close> say\<close>

subsection \<open>Counting the callbacks of a run\<close>





subsection \<open>Runs of a producer and a consumer\<close>












subsection \<open>The claim about \<open>empty()\<close>\<close>


text \<open>
  The cursor resets have the same effect without any overwrite write. With item size 1 and
  capacity 3: two blocking writes (the bytes 65, then 66), a reset of the write cursor, a
  third blocking write (the byte 67, which lands on slot 0 over the unread 65), a second
  reset and three blocking reads. The writer and the reader callbacks have each run three
  times and \<open>empty()\<close> holds, but the readers received 67, 66 and the initial 0 of
  slot 2: 65 was never read.
\<close>

lemma resets_leave_an_item_unread:
  "run (map counted [Write (memcpy_in [65]), Write (memcpy_in [66]), Reset_write_idx,
                     Write (memcpy_in [67]), Reset_write_idx,
                     Read memcpy_out, Read memcpy_out, Read memcpy_out])
       (((0, 0), []), initial_buffer 1 3)
   = Returns (((3, 3), [[67], [66], [0]]),
              \<lparr> buffer = [67, 66, 0], item_size = 1, max_items_count = 3,
                active_items_count = 0, write_idx = SIZE_MAX, read_idx = 2,
                dropped_reads = 0, should_always_drop_reads = False \<rparr>)
   \<and> empty_rb \<lparr> buffer = [67, 66, 0], item_size = 1, max_items_count = 3,
                active_items_count = 0, write_idx = SIZE_MAX, read_idx = 2,
                dropped_reads = 0, should_always_drop_reads = False \<rparr>"
  by (simp add: call_defs counting_writer_def counting_reader_def)



end
